theory Spec2Isabelle
  imports Main "HOL-Library.Sublist"
begin

section \<open>Data model\<close>

text \<open>
  The revision script \<^verbatim>\<open>2_Revise-Plan-Stable.py\<close> keeps conversation messages as
  dictionaries \<^verbatim>\<open>{"role": r, "content": c}\<close>; a message is modelled as the pair
  \<open>(r, c)\<close>. The history handed to the Gemini SDK has entries
  \<^verbatim>\<open>{"role": r, "parts": [{"text": c}]}\<close>, modelled as \<open>(r, [c])\<close>.
  Texts are byte strings, Python's strings in UTF-8.
\<close>

type_synonym message = "string \<times> string"

type_synonym gemini_content = "string \<times> string list"

record RevisionContext =
  step_name :: string
  original_content :: string
  revision_request :: string
  claude_messages :: "message list"
  gemini_history :: "message list"
  current_iteration :: int

text \<open>
  A step is a dictionary with the keys \<^verbatim>\<open>name\<close> and \<^verbatim>\<open>content\<close>; a plan carries the
  ordered list \<^verbatim>\<open>Detailed_Outline\<close> of steps and the dictionary \<^verbatim>\<open>revision_requests\<close>
  from step names to request texts. The other keys of a plan (title, summary, criteria)
  are never read or written by the functions below.
\<close>

record step =
  name :: string
  content :: string

record plan =
  Detailed_Outline :: "step list"
  revision_requests :: "string \<rightharpoonup> string"

section \<open>What lies outside the script, and the trace of effects\<close>

text \<open>
  A call into a provider SDK either raises an exception (\<open>Raises e\<close>, with the text of
  the exception; an instance of \<^verbatim>\<open>Exception\<close>, which is what the wrappers catch) or yields the
  text of the reply. For Claude this is \<^verbatim>\<open>client.messages.create(...)\<close> followed by
  \<^verbatim>\<open>response.content[0].text\<close>; for Gemini it is \<^verbatim>\<open>model.start_chat(history=...)\<close>,
  \<^verbatim>\<open>chat.send_message(new_prompt)\<close> and \<^verbatim>\<open>response.text\<close>.

  The observable effects of a run are recorded in a trace, oldest first: every call issued
  to a backend, with its arguments and its result, and every record written to the logger.
\<close>

datatype api_result = Raises string | Replies string

datatype event =
    MessagesCreate "message list" api_result
  | SendMessage "gemini_content list" string api_result
  | LogClaudeError string
  | LogGeminiError string
  | LogIteration int string
  | LogAccepted string
  | LogMaxIterations string

text \<open>
  The backends are outside the program. A backend is any function of the request and of
  everything that happened before it (the trace so far), so that a backend may answer the
  same request differently at different times, as a scripted stub or a remote model does.
  A call of \<open>messages_create\<close> or \<open>send_message\<close> stands for the whole call into the SDK,
  with whatever the SDK does inside it before it returns or raises.

  Python's \<^verbatim>\<open>str.upper\<close> is outside the repository as well: it follows the case table of the
  Unicode standard, which does not keep the length of a text (it maps the long s to
  \<^verbatim>\<open>S\<close> and the sharp s to \<^verbatim>\<open>SS\<close>). The table is the third parameter, \<open>str_upper\<close>: any
  function on texts.
\<close>

record environment =
  messages_create :: "event list \<Rightarrow> message list \<Rightarrow> api_result"
  send_message :: "event list \<Rightarrow> gemini_content list \<Rightarrow> string \<Rightarrow> api_result"
  str_upper :: "string \<Rightarrow> string"

definition MAX_ITERATIONS :: int where
  "MAX_ITERATIONS = 3"

section \<open>The gateway wrappers\<close>

text \<open>
  \<^verbatim>\<open>get_claude_response\<close>: the prompt is appended to \<^verbatim>\<open>context.claude_messages\<close> first, then
  the call is issued with the extended list; the reply is appended after it. Any exception
  is caught, logged, and turned into \<^verbatim>\<open>None\<close>. The functions return the Python result, the
  context object as the call leaves it, and the extended trace.
\<close>

definition get_claude_response ::
  "environment \<Rightarrow> RevisionContext \<Rightarrow> string \<Rightarrow> event list
     \<Rightarrow> string option \<times> RevisionContext \<times> event list" where
  "get_claude_response client context new_prompt tr =
     (let msgs = claude_messages context @ [(''user'', new_prompt)] in
      case messages_create client tr msgs of
        Replies response_text \<Rightarrow>
          (Some response_text,
           context\<lparr>claude_messages := msgs @ [(''assistant'', response_text)]\<rparr>,
           tr @ [MessagesCreate msgs (Replies response_text)])
      | Raises e \<Rightarrow>
          (None,
           context\<lparr>claude_messages := msgs\<rparr>,
           tr @ [MessagesCreate msgs (Raises e), LogClaudeError e]))"

text \<open>
  \<^verbatim>\<open>get_gemini_response\<close>: the history is translated for the SDK, the chat is opened and
  the prompt sent; only after the reply text has been read are the prompt and the reply
  appended to \<^verbatim>\<open>context.gemini_history\<close>.
\<close>

definition formatted_history :: "message list \<Rightarrow> gemini_content list" where
  "formatted_history history =
     map (\<lambda>(r, c). (if r = ''user'' then ''user'' else ''model'', [c])) history"

definition get_gemini_response ::
  "environment \<Rightarrow> RevisionContext \<Rightarrow> string \<Rightarrow> event list
     \<Rightarrow> string option \<times> RevisionContext \<times> event list" where
  "get_gemini_response model context new_prompt tr =
     (let hist = formatted_history (gemini_history context) in
      case send_message model tr hist new_prompt of
        Replies response_text \<Rightarrow>
          (Some response_text,
           context\<lparr>gemini_history :=
              gemini_history context @ [(''user'', new_prompt), (''model'', response_text)]\<rparr>,
           tr @ [SendMessage hist new_prompt (Replies response_text)])
      | Raises e \<Rightarrow>
          (None, context, tr @ [SendMessage hist new_prompt (Raises e), LogGeminiError e]))"

section \<open>Prompt construction\<close>

text \<open>
  \<^verbatim>\<open>_format_revision_history\<close> lists the replies of a history: entry \<open>i\<close> with role
  \<^verbatim>\<open>model\<close> becomes a block headed \<^verbatim>\<open>Revision i//2 + 1\<close>, one with role \<^verbatim>\<open>assistant\<close> a
  block headed \<^verbatim>\<open>Instruction i//2 + 1\<close>, other entries are skipped; the blocks are joined
  by an empty line. The empty history gives a fixed text.
\<close>

definition newline :: string where
  "newline = [CHR 0x0A]"

definition quote :: string where
  "quote = [CHR 0x27]"

definition fence :: string where
  "fence = [CHR 0x60, CHR 0x60, CHR 0x60]"

definition indent :: string where
  "indent = ''        ''"

fun str_nat :: "nat \<Rightarrow> string" where
  "str_nat n =
     (if n < 10 then [''0123456789'' ! n]
      else str_nat (n div 10) @ [''0123456789'' ! (n mod 10)])"

fun join :: "string \<Rightarrow> string list \<Rightarrow> string" where
  "join sep [] = []"
| "join sep [x] = x"
| "join sep (x # y # ys) = x @ sep @ join sep (y # ys)"

fun formatted_entries :: "nat \<Rightarrow> message list \<Rightarrow> string list" where
  "formatted_entries i [] = []"
| "formatted_entries i ((r, c) # history) =
     (if r = ''model'' then
        [''Revision '' @ str_nat (i div 2 + 1) @ '':'' @ newline @ fence @ newline @ c
           @ newline @ fence]
      else if r = ''assistant'' then
        [''Instruction '' @ str_nat (i div 2 + 1) @ '':'' @ newline @ fence @ newline @ c
           @ newline @ fence]
      else [])
     @ formatted_entries (Suc i) history"

definition format_revision_history :: "message list \<Rightarrow> string" where
  "format_revision_history history =
     (if history = [] then ''No previous revisions''
      else join (newline @ newline) (formatted_entries 0 history))"

text \<open>The two prompts of a round, as the f-strings of \<^verbatim>\<open>revise_step_with_llms\<close> build them.\<close>

definition claude_prompt :: "RevisionContext \<Rightarrow> string" where
  "claude_prompt context =
     newline
     @ indent @ ''Review the following step '' @ quote @ step_name context @ quote
         @ '' considering previous revisions:'' @ newline
     @ indent @ ''Original content:'' @ newline
     @ indent @ fence @ newline
     @ indent @ original_content context @ newline
     @ indent @ fence @ newline
     @ indent @ newline
     @ indent @ ''Revision request:'' @ newline
     @ indent @ fence @ newline
     @ indent @ revision_request context @ newline
     @ indent @ fence @ newline
     @ indent @ newline
     @ indent @ ''Previous revisions (if any):'' @ newline
     @ indent @ format_revision_history (gemini_history context) @ newline
     @ indent @ newline
     @ indent @ ''Provide detailed instructions to Gemini for the next revision.'' @ newline
     @ indent"

definition review_prompt :: "RevisionContext \<Rightarrow> string \<Rightarrow> string" where
  "review_prompt context revised_content =
     newline
     @ indent @ ''Review Gemini'' @ quote @ ''s latest revision:'' @ newline
     @ indent @ fence @ newline
     @ indent @ revised_content @ newline
     @ indent @ fence @ newline
     @ indent @ newline
     @ indent @ ''Original revision request:'' @ newline
     @ indent @ fence @ newline
     @ indent @ revision_request context @ newline
     @ indent @ fence @ newline
     @ indent @ newline
     @ indent @ ''Previous revision history:'' @ newline
     @ indent @ format_revision_history (gemini_history context) @ newline
     @ indent @ newline
     @ indent @ ''Does this revision meet all requirements? Respond with:'' @ newline
     @ indent @ ''* YES - if complete and ready for hand-off'' @ newline
     @ indent @ ''* NO - if changes needed, with specific feedback'' @ newline
     @ indent"

section \<open>The verdict test\<close>

text \<open>
  The test of the source is \<^verbatim>\<open>"YES" in verdict.upper()\<close>. \<open>upper B s\<close> is \<^verbatim>\<open>s.upper()\<close>: the
  case table of the environment applied to \<open>s\<close>; the empty text has no character to map
  and stays empty. \<open>str_contains s sub\<close> is Python's \<^verbatim>\<open>sub in s\<close>, searching for \<open>sub\<close> at
  every position of \<open>s\<close> (on UTF-8 this finds the same occurrences of an ASCII token as the
  search on code points does).
\<close>

definition upper :: "environment \<Rightarrow> string \<Rightarrow> string" where
  "upper B s = (if s = [] then [] else str_upper B s)"

fun str_contains :: "string \<Rightarrow> string \<Rightarrow> bool" where
  "str_contains [] sub = (sub = [])"
| "str_contains (c # cs) sub = (prefix sub (c # cs) \<or> str_contains cs sub)"

text \<open>
  For the examples, a case table that agrees with \<^verbatim>\<open>str.upper\<close> on texts made of ASCII
  characters, the sharp s (the bytes \<^verbatim>\<open>C3 9F\<close>, capitalised to \<^verbatim>\<open>SS\<close>) and the long s
  (the bytes \<^verbatim>\<open>C5 BF\<close>, capitalised to \<^verbatim>\<open>S\<close>).
\<close>

definition upper_char :: "char \<Rightarrow> char" where
  "upper_char c =
     (case map_of (zip ''abcdefghijklmnopqrstuvwxyz'' ''ABCDEFGHIJKLMNOPQRSTUVWXYZ'') c of
        Some u \<Rightarrow> u
      | None \<Rightarrow> c)"

fun sample_upper :: "string \<Rightarrow> string" where
  "sample_upper (a # b # cs) =
     (if a = CHR 0xC3 \<and> b = CHR 0x9F then ''SS'' @ sample_upper cs
      else if a = CHR 0xC5 \<and> b = CHR 0xBF then ''S'' @ sample_upper cs
      else upper_char a # sample_upper (b # cs))"
| "sample_upper [a] = [upper_char a]"
| "sample_upper [] = []"

section \<open>The revision protocol\<close>

text \<open>
  One pass through the body of the \<^verbatim>\<open>while\<close> loop of \<^verbatim>\<open>revise_step_with_llms\<close>, up to the
  verdict test: the iteration is logged, Claude is asked for instructions, Gemini for the
  revision, Claude for the review. Python's \<^verbatim>\<open>if not x\<close> holds for \<^verbatim>\<open>None\<close> and for the
  empty string; both end the invocation. The result says how the round ended.
\<close>

datatype round_result = RoundAborted | RoundAccepted string | RoundRejected

definition revise_round ::
  "environment \<Rightarrow> step \<Rightarrow> RevisionContext \<Rightarrow> event list
     \<Rightarrow> round_result \<times> RevisionContext \<times> event list" where
  "revise_round B step context tr =
     (case get_claude_response B context (claude_prompt context)
             (tr @ [LogIteration (current_iteration context) (name step)]) of
        (gemini_prompt, context1, tr1) \<Rightarrow>
     (case gemini_prompt of
        None \<Rightarrow> (RoundAborted, context1, tr1)
      | Some gp \<Rightarrow>
     if gp = [] then (RoundAborted, context1, tr1)
     else
     (case get_gemini_response B context1 gp tr1 of
        (revised_content, context2, tr2) \<Rightarrow>
     (case revised_content of
        None \<Rightarrow> (RoundAborted, context2, tr2)
      | Some rc \<Rightarrow>
     if rc = [] then (RoundAborted, context2, tr2)
     else
     (case get_claude_response B context2 (review_prompt context2 rc) tr2 of
        (verdict, context3, tr3) \<Rightarrow>
     (case verdict of
        None \<Rightarrow> (RoundAborted, context3, tr3)
      | Some v \<Rightarrow>
     if v = [] then (RoundAborted, context3, tr3)
     else if str_contains (upper B v) ''YES'' then (RoundAccepted rc, context3, tr3)
     else (RoundRejected, context3, tr3)))))))"

lemma revise_round_current_iteration:
  "revise_round B step context tr = (r, context', tr') \<Longrightarrow>
   current_iteration context' = current_iteration context"
  by (auto simp: revise_round_def get_claude_response_def get_gemini_response_def Let_def
           split: prod.splits option.splits api_result.splits if_splits)

text \<open>
  The loop. \<open>mx\<close> is the value of the module constant \<^verbatim>\<open>MAX_ITERATIONS\<close>. The three ways
  out of the function are told apart: \<open>ABORTED\<close> is \<^verbatim>\<open>return None, context\<close>, \<open>ACCEPTED\<close> is
  the \<^verbatim>\<open>return plan, context\<close> after the step was written, \<open>EXHAUSTED\<close> the
  \<^verbatim>\<open>return plan, context\<close> after the loop. The step dictionary is mutated in place by the
  source; the function returns it as the invocation leaves it. The parameter \<^verbatim>\<open>plan\<close> of
  the source is only handed back and \<^verbatim>\<open>verbose\<close> only governs printing, so neither is a
  parameter here: the exit state says whether the plan or \<^verbatim>\<open>None\<close> is returned.
\<close>

datatype exit_state = ABORTED | ACCEPTED | EXHAUSTED

function revise_loop ::
  "int \<Rightarrow> environment \<Rightarrow> step \<Rightarrow> RevisionContext \<Rightarrow> event list
     \<Rightarrow> exit_state \<times> step \<times> RevisionContext \<times> event list" where
  "revise_loop mx B step context tr =
     (if current_iteration context \<le> mx then
        (case revise_round B step context tr of
           (RoundAborted, context', tr') \<Rightarrow> (ABORTED, step, context', tr')
         | (RoundAccepted revised_content, context', tr') \<Rightarrow>
             (ACCEPTED, step\<lparr>content := revised_content\<rparr>, context',
              tr' @ [LogAccepted (name step)])
         | (RoundRejected, context', tr') \<Rightarrow>
             revise_loop mx B step
               (context'\<lparr>current_iteration := current_iteration context' + 1\<rparr>) tr')
      else (EXHAUSTED, step, context, tr @ [LogMaxIterations (name step)]))"
  by pat_completeness auto
termination
  by (relation "measure (\<lambda>(mx, B, step, context, tr). nat (mx + 1 - current_iteration context))")
     (auto dest: revise_round_current_iteration [OF sym])

definition initial_context :: "step \<Rightarrow> string \<Rightarrow> RevisionContext" where
  "initial_context step request =
     \<lparr>step_name = name step, original_content = content step, revision_request = request,
      claude_messages = [], gemini_history = [], current_iteration = 1\<rparr>"

definition revise_step_with_llms ::
  "int \<Rightarrow> environment \<Rightarrow> step \<Rightarrow> string \<Rightarrow> event list
     \<Rightarrow> exit_state \<times> step \<times> RevisionContext \<times> event list" where
  "revise_step_with_llms mx B step request tr =
     revise_loop mx B step (initial_context step request) tr"

section \<open>The driver\<close>

text \<open>
  \<^verbatim>\<open>further_revise_plan\<close> walks the outline in order. A step whose name is a key of
  \<^verbatim>\<open>revision_requests\<close> is handed to the protocol; when that returns \<^verbatim>\<open>None\<close> the driver
  returns \<^verbatim>\<open>None\<close> at once, otherwise the context is stored under the step's name. The
  result is: whether a plan was returned (\<open>False\<close> is Python's \<^verbatim>\<open>None\<close>), the outline of the
  caller's plan object as the call leaves it, the contexts, and the trace. The steps of an
  outline are distinct dictionaries, so writing one step leaves the others as they are. The
  two \<^verbatim>\<open>except\<close> branches of the driver have no counterpart: with plans and steps of the
  shapes above no lookup fails, and \<^verbatim>\<open>revise_step_with_llms\<close> raises nothing.
\<close>

type_synonym contexts = "string \<rightharpoonup> RevisionContext"

fun revise_steps ::
  "int \<Rightarrow> environment \<Rightarrow> (string \<rightharpoonup> string) \<Rightarrow> step list \<Rightarrow> contexts \<Rightarrow> event list
     \<Rightarrow> bool \<times> step list \<times> contexts \<times> event list" where
  "revise_steps mx B requests [] revision_contexts tr = (True, [], revision_contexts, tr)"
| "revise_steps mx B requests (step # rest) revision_contexts tr =
     (case requests (name step) of
        None \<Rightarrow>
          (case revise_steps mx B requests rest revision_contexts tr of
             (ok, rest', contexts', tr') \<Rightarrow> (ok, step # rest', contexts', tr'))
      | Some request \<Rightarrow>
          (case revise_step_with_llms mx B step request tr of
             (ex, step', context, tr1) \<Rightarrow>
               if ex = ABORTED then (False, step' # rest, revision_contexts, tr1)
               else
                 (case revise_steps mx B requests rest
                         (revision_contexts(name step \<mapsto> context)) tr1 of
                    (ok, rest', contexts', tr') \<Rightarrow> (ok, step' # rest', contexts', tr'))))"

definition further_revise_plan ::
  "int \<Rightarrow> environment \<Rightarrow> plan \<Rightarrow> event list \<Rightarrow> bool \<times> plan \<times> contexts \<times> event list" where
  "further_revise_plan mx B plan tr =
     (case revise_steps mx B (revision_requests plan) (Detailed_Outline plan) Map.empty tr of
        (ok, outline', revision_contexts, tr') \<Rightarrow>
          (ok, plan\<lparr>Detailed_Outline := outline'\<rparr>, revision_contexts, tr'))"

section \<open>Notions used to state the properties\<close>

text \<open>
  The number of rounds begun in a trace is the number of iteration records in it, and the
  number of backend calls is the number of call events.
\<close>

fun is_iteration :: "event \<Rightarrow> bool" where
  "is_iteration (LogIteration k n) = True"
| "is_iteration _ = False"

fun is_call :: "event \<Rightarrow> bool" where
  "is_call (MessagesCreate msgs r) = True"
| "is_call (SendMessage h p r) = True"
| "is_call _ = False"

definition rounds :: "event list \<Rightarrow> nat" where
  "rounds tr = length (filter is_iteration tr)"

definition calls :: "event list \<Rightarrow> nat" where
  "calls tr = length (filter is_call tr)"

text \<open>
  \<open>rejected_rounds B step n context tr\<close> runs \<open>n\<close> rounds from a state, as the loop does,
  and yields the state they lead to when every one of them ends with a rejecting review;
  it is the state in which round \<open>n + 1\<close> starts.
\<close>

fun rejected_rounds ::
  "environment \<Rightarrow> step \<Rightarrow> nat \<Rightarrow> RevisionContext \<Rightarrow> event list
     \<Rightarrow> (RevisionContext \<times> event list) option" where
  "rejected_rounds B step 0 context tr = Some (context, tr)"
| "rejected_rounds B step (Suc n) context tr =
     (case revise_round B step context tr of
        (RoundRejected, context', tr') \<Rightarrow>
          rejected_rounds B step n
            (context'\<lparr>current_iteration := current_iteration context' + 1\<rparr>) tr'
      | _ \<Rightarrow> None)"

section \<open>Stub environments and sample data for the examples\<close>

definition failing_backends :: environment where
  "failing_backends =
     \<lparr>messages_create = (\<lambda>tr msgs. Raises ''overloaded_error''),
      send_message = (\<lambda>tr h p. Raises ''503 service unavailable''),
      str_upper = sample_upper\<rparr>"

definition rejecting_backends :: environment where
  "rejecting_backends =
     \<lparr>messages_create = (\<lambda>tr msgs. Replies ''NO needs work''),
      send_message = (\<lambda>tr h p. Replies ''Body, second draft''),
      str_upper = sample_upper\<rparr>"

definition sample_context :: RevisionContext where
  "sample_context =
     \<lparr>step_name = ''Body'', original_content = ''Body, first draft'',
      revision_request = ''add more detail'',
      claude_messages = [(''user'', ''instruct''), (''assistant'', ''be longer'')],
      gemini_history = [], current_iteration = 1\<rparr>"

definition gemini_down_backends :: environment where
  "gemini_down_backends =
     \<lparr>messages_create = (\<lambda>tr msgs. Replies ''NO needs work''),
      send_message = (\<lambda>tr h p. Raises ''503 service unavailable''),
      str_upper = sample_upper\<rparr>"

text \<open>Claude raises on the call issued when \<open>k\<close> calls have been made, and replies otherwise.\<close>

definition claude_failing_at :: "nat \<Rightarrow> environment" where
  "claude_failing_at k =
     \<lparr>messages_create =
        (\<lambda>tr msgs. if calls tr = k then Raises ''rate_limit_error'' else Replies ''NO needs work''),
      send_message = (\<lambda>tr h p. Replies ''Body, second draft''),
      str_upper = sample_upper\<rparr>"

text \<open>
  The reviewer accepts in round \<open>k\<close>, whose review request is the one with \<open>4 * k - 1\<close>
  messages, and rejects in the others; Gemini numbers its drafts.
\<close>

definition accepting_in_round :: "nat \<Rightarrow> environment" where
  "accepting_in_round k =
     \<lparr>messages_create =
        (\<lambda>tr msgs. if length msgs = 4 * k - 1 then Replies ''Yes - ready for hand-off''
                    else Replies ''NO needs work''),
      send_message = (\<lambda>tr h p. Replies (''Body, draft '' @ str_nat (length h div 2 + 2))),
      str_upper = sample_upper\<rparr>"

text \<open>The reviewer answers with the empty text.\<close>

definition silent_reviewer_backends :: environment where
  "silent_reviewer_backends =
     \<lparr>messages_create =
        (\<lambda>tr msgs. if length msgs = 1 then Replies ''Add detail'' else Replies []),
      send_message = (\<lambda>tr h p. Replies ''Body, second draft''),
      str_upper = sample_upper\<rparr>"

definition intro_step :: step where
  "intro_step = \<lparr>name = ''Intro'', content = ''Intro, first draft''\<rparr>"

definition body_step :: step where
  "body_step = \<lparr>name = ''Body'', content = ''Body, first draft''\<rparr>"

definition sample_plan :: plan where
  "sample_plan =
     \<lparr>Detailed_Outline = [intro_step, body_step],
      revision_requests = [''Body'' \<mapsto> ''add more detail'']\<rparr>"

text \<open>The results of the backend calls of a trace, in order.\<close>

fun results :: "event list \<Rightarrow> api_result list" where
  "results [] = []"
| "results (MessagesCreate msgs r # tr) = r # results tr"
| "results (SendMessage h p r # tr) = r # results tr"
| "results (e # tr) = results tr"

text \<open>Claude accepts everything until three calls have been made, and raises from then on.\<close>

definition failing_after_three_calls :: environment where
  "failing_after_three_calls =
     \<lparr>messages_create =
        (\<lambda>tr msgs. if 3 \<le> calls tr then Raises ''overloaded_error''
                    else Replies ''YES, approved''),
      send_message = (\<lambda>tr h p. Replies ''Intro, second draft''),
      str_upper = sample_upper\<rparr>"

definition two_request_plan :: plan where
  "two_request_plan =
     \<lparr>Detailed_Outline = [intro_step, body_step],
      revision_requests = [''Intro'' \<mapsto> ''shorten'', ''Body'' \<mapsto> ''add more detail'']\<rparr>"

text \<open>The plan of the scenario with one pending request, for any two contents.\<close>

definition scenario_plan :: "string \<Rightarrow> string \<Rightarrow> plan" where
  "scenario_plan a b =
     \<lparr>Detailed_Outline = [\<lparr>name = ''Intro'', content = a\<rparr>, \<lparr>name = ''Body'', content = b\<rparr>],
      revision_requests = [''Body'' \<mapsto> ''add more detail'']\<rparr>"

text \<open>
  The reviewer accepts with a text whose capitalisation is longer than the text: \<^verbatim>\<open>ye\<close>
  followed by the sharp s.
\<close>

definition sharp_s_reviewer_backends :: environment where
  "sharp_s_reviewer_backends =
     \<lparr>messages_create =
        (\<lambda>tr msgs. if length msgs = 1 then Replies ''Add detail''
                    else Replies (''ye'' @ [CHR 0xC3, CHR 0x9F])),
      send_message = (\<lambda>tr h p. Replies ''Body, second draft''),
      str_upper = sample_upper\<rparr>"

text \<open>
  Gemini is unavailable at its first call only, the second call of the run, and would
  answer any later one.
\<close>

definition gemini_unavailable_once :: environment where
  "gemini_unavailable_once =
     \<lparr>messages_create = (\<lambda>tr msgs. Replies ''NO needs work''),
      send_message =
        (\<lambda>tr h p. if calls tr = 1 then Raises ''503 Service Unavailable''
                   else Replies ''Body, second draft''),
      str_upper = sample_upper\<rparr>"

text \<open>
  Three readings of the results of backend calls: a call has returned text when it replied
  with a non-empty text; the review results of a list of results are every third one, the
  review of each completed round; a result is accepting when it is a reply that passes the
  verdict test.
\<close>

fun returned_text :: "api_result \<Rightarrow> bool" where
  "returned_text (Replies s) = (s \<noteq> [])"
| "returned_text (Raises e) = False"

fun review_results :: "api_result list \<Rightarrow> api_result list" where
  "review_results (a # b # c # rs) = c # review_results rs"
| "review_results rs = []"

fun accepting :: "environment \<Rightarrow> api_result \<Rightarrow> bool" where
  "accepting B (Replies v) = str_contains (upper B v) ''YES''"
| "accepting B (Raises e) = False"

section \<open>Properties of the wrappers\<close>

lemma get_claude_response_Replies:
  "messages_create client tr (claude_messages context @ [(''user'', p)]) = Replies t \<Longrightarrow>
   get_claude_response client context p tr =
     (Some t,
      context\<lparr>claude_messages := claude_messages context @ [(''user'', p), (''assistant'', t)]\<rparr>,
      tr @ [MessagesCreate (claude_messages context @ [(''user'', p)]) (Replies t)])"
  by (simp add: get_claude_response_def Let_def)

lemma get_claude_response_Raises:
  "messages_create client tr (claude_messages context @ [(''user'', p)]) = Raises e \<Longrightarrow>
   get_claude_response client context p tr =
     (None,
      context\<lparr>claude_messages := claude_messages context @ [(''user'', p)]\<rparr>,
      tr @ [MessagesCreate (claude_messages context @ [(''user'', p)]) (Raises e), LogClaudeError e])"
  by (simp add: get_claude_response_def Let_def)

lemma get_gemini_response_Replies:
  "send_message model tr (formatted_history (gemini_history context)) p = Replies t \<Longrightarrow>
   get_gemini_response model context p tr =
     (Some t,
      context\<lparr>gemini_history := gemini_history context @ [(''user'', p), (''model'', t)]\<rparr>,
      tr @ [SendMessage (formatted_history (gemini_history context)) p (Replies t)])"
  by (simp add: get_gemini_response_def Let_def)

lemma get_gemini_response_Raises:
  "send_message model tr (formatted_history (gemini_history context)) p = Raises e \<Longrightarrow>
   get_gemini_response model context p tr =
     (None, context,
      tr @ [SendMessage (formatted_history (gemini_history context)) p (Raises e), LogGeminiError e])"
  by (simp add: get_gemini_response_def Let_def)

section \<open>Properties of one round\<close>

lemma rounds_append [simp]: "rounds (xs @ ys) = rounds xs + rounds ys"
  by (simp add: rounds_def)

lemma calls_append [simp]: "calls (xs @ ys) = calls xs + calls ys"
  by (simp add: calls_def)

lemma rounds_Cons [simp]: "rounds (e # tr) = (if is_iteration e then 1 else 0) + rounds tr"
  by (simp add: rounds_def)

lemma calls_Cons [simp]: "calls (e # tr) = (if is_call e then 1 else 0) + calls tr"
  by (simp add: calls_def)

lemma rounds_Nil [simp]: "rounds [] = 0"
  by (simp add: rounds_def)

lemma calls_Nil [simp]: "calls [] = 0"
  by (simp add: calls_def)

lemma get_claude_response_effect:
  assumes "get_claude_response B c p tr = (x, c', tr')"
  shows "rounds tr' = rounds tr" and "calls tr' = calls tr + 1" and "prefix tr tr'"
    and "prefix (claude_messages c) (claude_messages c')"
    and "gemini_history c' = gemini_history c"
    and "step_name c' = step_name c" and "original_content c' = original_content c"
    and "revision_request c' = revision_request c"
    and "current_iteration c' = current_iteration c"
  using assms
  by (auto simp: get_claude_response_def Let_def split: api_result.splits)

lemma get_gemini_response_effect:
  assumes "get_gemini_response B c p tr = (x, c', tr')"
  shows "rounds tr' = rounds tr" and "calls tr' = calls tr + 1" and "prefix tr tr'"
    and "claude_messages c' = claude_messages c"
    and "prefix (gemini_history c) (gemini_history c')"
    and "step_name c' = step_name c" and "original_content c' = original_content c"
    and "revision_request c' = revision_request c"
    and "current_iteration c' = current_iteration c"
  using assms
  by (auto simp: get_gemini_response_def Let_def split: api_result.splits)

lemma revise_round_cases:
  assumes "revise_round B step c tr = (res, c', tr')"
  obtains
    (instruct_failed) x where
      "get_claude_response B c (claude_prompt c)
         (tr @ [LogIteration (current_iteration c) (name step)]) = (x, c', tr')"
      "x = None \<or> x = Some []" "res = RoundAborted"
  | (revise_failed) gp c1 t1 x where
      "get_claude_response B c (claude_prompt c)
         (tr @ [LogIteration (current_iteration c) (name step)]) = (Some gp, c1, t1)"
      "gp \<noteq> []"
      "get_gemini_response B c1 gp t1 = (x, c', tr')"
      "x = None \<or> x = Some []" "res = RoundAborted"
  | (reviewed) gp c1 t1 rc c2 t2 x where
      "get_claude_response B c (claude_prompt c)
         (tr @ [LogIteration (current_iteration c) (name step)]) = (Some gp, c1, t1)"
      "gp \<noteq> []"
      "get_gemini_response B c1 gp t1 = (Some rc, c2, t2)"
      "rc \<noteq> []"
      "get_claude_response B c2 (review_prompt c2 rc) t2 = (x, c', tr')"
      "res = (case x of None \<Rightarrow> RoundAborted
              | Some v \<Rightarrow> if v = [] then RoundAborted
                          else if str_contains (upper B v) ''YES'' then RoundAccepted rc
                          else RoundRejected)"
  using assms unfolding revise_round_def
  by (auto split: prod.splits option.splits if_splits)

lemma revise_round_effect:
  assumes "revise_round B step c tr = (res, c', tr')"
  shows "rounds tr' = rounds tr + 1" and "calls tr' \<le> calls tr + 3" and "prefix tr tr'"
    and "prefix (claude_messages c) (claude_messages c')"
    and "prefix (gemini_history c) (gemini_history c')"
    and "step_name c' = step_name c" and "original_content c' = original_content c"
    and "revision_request c' = revision_request c"
proof -
  let ?tr0 = "tr @ [LogIteration (current_iteration c) (name step)]"
  have "rounds tr' = rounds tr + 1 \<and> calls tr' \<le> calls tr + 3 \<and> prefix tr tr'
      \<and> prefix (claude_messages c) (claude_messages c')
      \<and> prefix (gemini_history c) (gemini_history c')
      \<and> step_name c' = step_name c \<and> original_content c' = original_content c
      \<and> revision_request c' = revision_request c"
    using assms
  proof (cases rule: revise_round_cases)
    case (instruct_failed x)
    from get_claude_response_effect [OF instruct_failed(1)] show ?thesis
      by (auto dest: append_prefixD)
  next
    case (revise_failed gp c1 t1 x)
    from get_claude_response_effect [OF revise_failed(1)]
         get_gemini_response_effect [OF revise_failed(3)]
    show ?thesis
      by (auto dest: append_prefixD elim: prefix_order.trans)
  next
    case (reviewed gp c1 t1 rc c2 t2 x)
    from get_claude_response_effect [OF reviewed(1)]
         get_gemini_response_effect [OF reviewed(3)]
         get_claude_response_effect [OF reviewed(5)]
    show ?thesis
      by (auto dest: append_prefixD elim: prefix_order.trans)
  qed
  then show "rounds tr' = rounds tr + 1" and "calls tr' \<le> calls tr + 3" and "prefix tr tr'"
    and "prefix (claude_messages c) (claude_messages c')"
    and "prefix (gemini_history c) (gemini_history c')"
    and "step_name c' = step_name c" and "original_content c' = original_content c"
    and "revision_request c' = revision_request c"
    by simp_all
qed


section \<open>Properties of the loop\<close>

declare revise_loop.simps [simp del]

lemma revise_loop_exhausted:
  "\<not> current_iteration c \<le> mx \<Longrightarrow>
   revise_loop mx B step c tr = (EXHAUSTED, step, c, tr @ [LogMaxIterations (name step)])"
  by (subst revise_loop.simps) simp

lemma revise_loop_aborted:
  "current_iteration c \<le> mx \<Longrightarrow> revise_round B step c tr = (RoundAborted, c', tr') \<Longrightarrow>
   revise_loop mx B step c tr = (ABORTED, step, c', tr')"
  by (subst revise_loop.simps) simp

lemma revise_loop_accepted:
  "current_iteration c \<le> mx \<Longrightarrow> revise_round B step c tr = (RoundAccepted r, c', tr') \<Longrightarrow>
   revise_loop mx B step c tr =
     (ACCEPTED, step\<lparr>content := r\<rparr>, c', tr' @ [LogAccepted (name step)])"
  by (subst revise_loop.simps) simp

lemma revise_loop_rejected:
  "current_iteration c \<le> mx \<Longrightarrow> revise_round B step c tr = (RoundRejected, c', tr') \<Longrightarrow>
   revise_loop mx B step c tr =
     revise_loop mx B step (c'\<lparr>current_iteration := current_iteration c' + 1\<rparr>) tr'"
  by (subst revise_loop.simps) simp

lemma revise_loop_induct [case_names exhausted aborted accepted rejected]:
  assumes ex: "\<And>c tr. \<not> current_iteration c \<le> mx \<Longrightarrow> P c tr"
    and ab: "\<And>c tr c' tr'. current_iteration c \<le> mx \<Longrightarrow>
               revise_round B step c tr = (RoundAborted, c', tr') \<Longrightarrow> P c tr"
    and ac: "\<And>c tr r c' tr'. current_iteration c \<le> mx \<Longrightarrow>
               revise_round B step c tr = (RoundAccepted r, c', tr') \<Longrightarrow> P c tr"
    and rj: "\<And>c tr c' tr'. current_iteration c \<le> mx \<Longrightarrow>
               revise_round B step c tr = (RoundRejected, c', tr') \<Longrightarrow>
               P (c'\<lparr>current_iteration := current_iteration c' + 1\<rparr>) tr' \<Longrightarrow> P c tr"
  shows "P c tr"
proof (induction "nat (mx + 1 - current_iteration c)" arbitrary: c tr rule: less_induct)
  case (less c tr)
  show ?case
  proof (cases "current_iteration c \<le> mx")
    case False
    then show ?thesis by (rule ex)
  next
    case True
    obtain res c' tr' where r: "revise_round B step c tr = (res, c', tr')"
      by (cases "revise_round B step c tr") auto
    show ?thesis
    proof (cases res)
      case RoundAborted
      with True r show ?thesis by (blast intro: ab)
    next
      case (RoundAccepted x)
      with True r show ?thesis by (blast intro: ac)
    next
      case RoundRejected
      have "current_iteration c' = current_iteration c"
        using r by (rule revise_round_current_iteration)
      with True have "nat (mx + 1 - current_iteration (c'\<lparr>current_iteration := current_iteration c' + 1\<rparr>))
                       < nat (mx + 1 - current_iteration c)"
        by simp
      then have "P (c'\<lparr>current_iteration := current_iteration c' + 1\<rparr>) tr'"
        by (rule less.hyps)
      with True r RoundRejected show ?thesis by (blast intro: rj)
    qed
  qed
qed

lemma revise_loop_bounds:
  "revise_loop mx B step c tr = (ex, step', c', tr')
   \<Longrightarrow> rounds tr' \<le> rounds tr + nat (mx + 1 - current_iteration c)
     \<and> calls tr' \<le> calls tr + 3 * nat (mx + 1 - current_iteration c)
     \<and> prefix tr tr'"
proof (induction c tr rule: revise_loop_induct [where mx = mx and B = B and step = step])
  case (exhausted c tr)
  then show ?case by (auto simp add: revise_loop_exhausted)
next
  case (aborted c tr c1 tr1)
  from revise_round_effect [OF aborted(2)] aborted show ?case
    by (auto simp add: revise_loop_aborted)
next
  case (accepted c tr r c1 tr1)
  from revise_round_effect [OF accepted(2)] accepted show ?case
    by (auto simp add: revise_loop_accepted)
next
  case (rejected c tr c1 tr1)
  have it: "current_iteration c1 = current_iteration c"
    using rejected(2) by (rule revise_round_current_iteration)
  from rejected have "revise_loop mx B step (c1\<lparr>current_iteration := current_iteration c1 + 1\<rparr>) tr1
      = (ex, step', c', tr')"
    by (simp add: revise_loop_rejected)
  from rejected(3) [OF this] revise_round_effect(1-3) [OF rejected(2)] it rejected(1)
  show ?case
    by (auto elim: prefix_order.trans)
qed

lemma revise_loop_histories:
  "revise_loop mx B step c tr = (ex, step', c', tr')
   \<Longrightarrow> prefix (claude_messages c) (claude_messages c')
     \<and> prefix (gemini_history c) (gemini_history c')
     \<and> step_name c' = step_name c \<and> original_content c' = original_content c
     \<and> revision_request c' = revision_request c"
proof (induction c tr rule: revise_loop_induct [where mx = mx and B = B and step = step])
  case (exhausted c tr)
  then show ?case by (auto simp add: revise_loop_exhausted)
next
  case (aborted c tr c1 tr1)
  from revise_round_effect [OF aborted(2)] aborted show ?case
    by (auto simp add: revise_loop_aborted)
next
  case (accepted c tr r c1 tr1)
  from revise_round_effect [OF accepted(2)] accepted show ?case
    by (auto simp add: revise_loop_accepted)
next
  case (rejected c tr c1 tr1)
  from rejected have "revise_loop mx B step (c1\<lparr>current_iteration := current_iteration c1 + 1\<rparr>) tr1
      = (ex, step', c', tr')"
    by (simp add: revise_loop_rejected)
  from rejected(3) [OF this] revise_round_effect(4-8) [OF rejected(2)]
  show ?case
    by (auto elim: prefix_order.trans)
qed

lemma revise_loop_step:
  "revise_loop mx B step c tr = (ex, step', c', tr')
   \<Longrightarrow> (ex \<noteq> ACCEPTED \<longrightarrow> step' = step)
     \<and> (ex = ACCEPTED \<longrightarrow>
           (\<exists>r h. r \<noteq> [] \<and> step' = step\<lparr>content := r\<rparr>
                \<and> gemini_history c' = h @ [(''model'', r)]))
     \<and> name step' = name step"
proof (induction c tr rule: revise_loop_induct [where mx = mx and B = B and step = step])
  case (exhausted c tr)
  then show ?case by (auto simp add: revise_loop_exhausted)
next
  case (aborted c tr c1 tr1)
  then show ?case by (auto simp add: revise_loop_aborted)
next
  case (accepted c tr r c1 tr1)
  from accepted(2) have "r \<noteq> [] \<and> (\<exists>h. gemini_history c1 = h @ [(''model'', r)])"
    by (auto simp: revise_round_def get_claude_response_def get_gemini_response_def Let_def
             split: prod.splits option.splits api_result.splits if_splits)
  with accepted show ?case
    by (auto simp add: revise_loop_accepted)
next
  case (rejected c tr c1 tr1)
  from rejected have "revise_loop mx B step (c1\<lparr>current_iteration := current_iteration c1 + 1\<rparr>) tr1
      = (ex, step', c', tr')"
    by (simp add: revise_loop_rejected)
  from rejected(3) [OF this] show ?case .
qed

lemma rejected_rounds_effect:
  "rejected_rounds B step n c tr = Some (c', tr')
   \<Longrightarrow> current_iteration c' = current_iteration c + int n
     \<and> rounds tr' = rounds tr + n \<and> calls tr' \<le> calls tr + 3 * n"
proof (induction n arbitrary: c tr)
  case 0
  then show ?case by simp
next
  case (Suc n)
  obtain res c1 tr1 where r: "revise_round B step c tr = (res, c1, tr1)"
    by (cases "revise_round B step c tr") auto
  with Suc.prems have res: "res = RoundRejected"
    and rest: "rejected_rounds B step n (c1\<lparr>current_iteration := current_iteration c1 + 1\<rparr>) tr1
                 = Some (c', tr')"
    by (auto split: round_result.splits)
  from Suc.IH [OF rest] revise_round_effect(1,2) [OF r] revise_round_current_iteration [OF r]
  show ?case by simp
qed

lemma revise_loop_after_rejected:
  "rejected_rounds B step n c tr = Some (c', tr') \<Longrightarrow> current_iteration c + int n \<le> mx + 1
   \<Longrightarrow> revise_loop mx B step c tr = revise_loop mx B step c' tr'"
proof (induction n arbitrary: c tr)
  case 0
  then show ?case by simp
next
  case (Suc n)
  obtain res c1 tr1 where r: "revise_round B step c tr = (res, c1, tr1)"
    by (cases "revise_round B step c tr") auto
  with Suc.prems have res: "res = RoundRejected"
    and rest: "rejected_rounds B step n (c1\<lparr>current_iteration := current_iteration c1 + 1\<rparr>) tr1
                 = Some (c', tr')"
    by (auto split: round_result.splits)
  have it: "current_iteration c1 = current_iteration c"
    using r by (rule revise_round_current_iteration)
  from Suc.prems(2) have le: "current_iteration c \<le> mx" by simp
  have "revise_loop mx B step c tr
      = revise_loop mx B step (c1\<lparr>current_iteration := current_iteration c1 + 1\<rparr>) tr1"
    using le r res by (simp add: revise_loop_rejected)
  also have "\<dots> = revise_loop mx B step c' tr'"
    using Suc.IH [OF rest] Suc.prems(2) it by simp
  finally show ?case .
qed

section \<open>Further properties of rounds and of the verdict test\<close>

lemma str_contains_sublist: "str_contains s sub \<longleftrightarrow> sublist sub s"
  by (induction s) (auto simp: sublist_Cons_right)

lemma revise_round_instruct_failed:
  "get_claude_response B c (claude_prompt c)
     (tr @ [LogIteration (current_iteration c) (name step)]) = (x, c1, t1)
   \<Longrightarrow> x = None \<or> x = Some []
   \<Longrightarrow> revise_round B step c tr = (RoundAborted, c1, t1)"
  by (auto simp: revise_round_def)

lemma revise_round_revise_failed:
  "get_claude_response B c (claude_prompt c)
     (tr @ [LogIteration (current_iteration c) (name step)]) = (Some g, c1, t1)
   \<Longrightarrow> g \<noteq> []
   \<Longrightarrow> get_gemini_response B c1 g t1 = (x, c2, t2)
   \<Longrightarrow> x = None \<or> x = Some []
   \<Longrightarrow> revise_round B step c tr = (RoundAborted, c2, t2)"
  by (auto simp: revise_round_def)

lemma revise_round_reviewed:
  "get_claude_response B c (claude_prompt c)
     (tr @ [LogIteration (current_iteration c) (name step)]) = (Some g, c1, t1)
   \<Longrightarrow> g \<noteq> []
   \<Longrightarrow> get_gemini_response B c1 g t1 = (Some r, c2, t2)
   \<Longrightarrow> r \<noteq> []
   \<Longrightarrow> get_claude_response B c2 (review_prompt c2 r) t2 = (x, c3, t3)
   \<Longrightarrow> revise_round B step c tr =
        ((case x of None \<Rightarrow> RoundAborted
          | Some v \<Rightarrow> if v = [] then RoundAborted
                      else if str_contains (upper B v) ''YES'' then RoundAccepted r
                      else RoundRejected), c3, t3)"
  by (auto simp: revise_round_def split: option.splits)

lemmas stub_defs = failing_backends_def rejecting_backends_def gemini_down_backends_def
  failing_after_three_calls_def two_request_plan_def sample_plan_def scenario_plan_def
  claude_failing_at_def accepting_in_round_def silent_reviewer_backends_def
  sharp_s_reviewer_backends_def gemini_unavailable_once_def
  intro_step_def body_step_def initial_context_def

lemma revise_loop_exhausted_only_if:
  "revise_loop mx B step c tr = (EXHAUSTED, step', c', tr')
   \<Longrightarrow> rejected_rounds B step (nat (mx + 1 - current_iteration c)) c tr \<noteq> None"
proof (induction c tr rule: revise_loop_induct [where mx = mx and B = B and step = step])
  case (exhausted c tr)
  then show ?case by simp
next
  case (aborted c tr c1 tr1)
  then show ?case by (simp add: revise_loop_aborted)
next
  case (accepted c tr r c1 tr1)
  then show ?case by (simp add: revise_loop_accepted)
next
  case (rejected c tr c1 tr1)
  have it: "current_iteration c1 = current_iteration c"
    using rejected(2) by (rule revise_round_current_iteration)
  from rejected have "revise_loop mx B step (c1\<lparr>current_iteration := current_iteration c1 + 1\<rparr>) tr1
      = (EXHAUSTED, step', c', tr')"
    by (simp add: revise_loop_rejected)
  from rejected(3) [OF this]
  have "rejected_rounds B step (nat (mx - current_iteration c))
          (c1\<lparr>current_iteration := current_iteration c1 + 1\<rparr>) tr1 \<noteq> None"
    by (simp add: it)
  moreover have "nat (mx + 1 - current_iteration c) = Suc (nat (mx - current_iteration c))"
    using rejected(1) by simp
  ultimately show ?case
    using rejected(2) by simp
qed

lemmas eval_defs = revise_step_with_llms_def MAX_ITERATIONS_def revise_round_def
  get_claude_response_def get_gemini_response_def formatted_history_def Let_def
  upper_def upper_char_def

section \<open>Properties of the driver\<close>

lemma revise_step_with_llms_step:
  assumes "revise_step_with_llms mx B step request tr = (ex, step', c', tr')"
  shows "name step' = name step" and "ex \<noteq> ACCEPTED \<Longrightarrow> step' = step"
  using revise_loop_step [of mx B step "initial_context step request" tr ex step' c' tr'] assms
  by (simp_all add: revise_step_with_llms_def)

lemma revise_steps_Cons_None:
  "requests (name step) = None \<Longrightarrow>
   revise_steps mx B requests (step # rest) cs tr =
     (case revise_steps mx B requests rest cs tr of
        (ok, rest', cs', tr') \<Rightarrow> (ok, step # rest', cs', tr'))"
  by (simp split: prod.splits)

lemma revise_steps_Cons_aborted:
  "requests (name step) = Some request \<Longrightarrow>
   revise_step_with_llms mx B step request tr = (ABORTED, step', c, tr1) \<Longrightarrow>
   revise_steps mx B requests (step # rest) cs tr = (False, step # rest, cs, tr1)"
  using revise_step_with_llms_step(2) [of mx B step request tr ABORTED step' c tr1]
  by simp

lemma revise_steps_Cons_revised:
  "requests (name step) = Some request \<Longrightarrow>
   revise_step_with_llms mx B step request tr = (ex, step', c, tr1) \<Longrightarrow> ex \<noteq> ABORTED \<Longrightarrow>
   revise_steps mx B requests (step # rest) cs tr =
     (case revise_steps mx B requests rest (cs(name step \<mapsto> c)) tr1 of
        (ok, rest', cs', tr') \<Rightarrow> (ok, step' # rest', cs', tr'))"
  by (simp split: prod.splits)

lemma revise_steps_append:
  "revise_steps mx B requests (xs @ ys) cs tr =
     (case revise_steps mx B requests xs cs tr of
        (ok, xs', cs1, tr1) \<Rightarrow>
          if ok then
            (case revise_steps mx B requests ys cs1 tr1 of
               (ok', ys', cs2, tr2) \<Rightarrow> (ok', xs' @ ys', cs2, tr2))
          else (False, xs' @ ys, cs1, tr1))"
proof (induction xs arbitrary: cs tr)
  case Nil
  then show ?case by (simp split: prod.splits)
next
  case (Cons x xs)
  show ?case
  proof (cases "requests (name x)")
    case None
    then show ?thesis
      by (simp add: Cons.IH split: prod.splits)
  next
    case (Some request)
    obtain ex x' c tr1 where r: "revise_step_with_llms mx B x request tr = (ex, x', c, tr1)"
      by (cases "revise_step_with_llms mx B x request tr") auto
    show ?thesis
    proof (cases "ex = ABORTED")
      case True
      with Some r show ?thesis by simp
    next
      case False
      obtain ok1 xs1 cs1 tr2 where
        a: "revise_steps mx B requests xs (cs(name x \<mapsto> c)) tr1 = (ok1, xs1, cs1, tr2)"
        by (cases "revise_steps mx B requests xs (cs(name x \<mapsto> c)) tr1") auto
      obtain ok2 ys2 cs2 tr3 where
        b: "revise_steps mx B requests ys cs1 tr2 = (ok2, ys2, cs2, tr3)"
        by (cases "revise_steps mx B requests ys cs1 tr2") auto
      have 1: "revise_steps mx B requests (x # xs) cs tr = (ok1, x' # xs1, cs1, tr2)"
        unfolding revise_steps_Cons_revised [where requests = requests and step = x, OF Some r False] a by simp
      have "revise_steps mx B requests (xs @ ys) (cs(name x \<mapsto> c)) tr1
          = (if ok1 then (ok2, xs1 @ ys2, cs2, tr3) else (False, xs1 @ ys, cs1, tr2))"
        unfolding Cons.IH [of "cs(name x \<mapsto> c)" tr1] a using b by simp
      then have 2: "revise_steps mx B requests (x # xs @ ys) cs tr
          = (if ok1 then (ok2, x' # xs1 @ ys2, cs2, tr3) else (False, x' # xs1 @ ys, cs1, tr2))"
        unfolding revise_steps_Cons_revised [where requests = requests and step = x, OF Some r False] by simp
      show ?thesis
        unfolding append_Cons 2 unfolding 1 using b by simp
    qed
  qed
qed

lemma revise_steps_frame:
  "revise_steps mx B requests steps cs tr = (ok, steps', cs', tr')
   \<Longrightarrow> length steps' = length steps
     \<and> map name steps' = map name steps
     \<and> (\<forall>i < length steps. requests (name (steps ! i)) = None \<longrightarrow> steps' ! i = steps ! i)
     \<and> (\<forall>n. requests n = None \<longrightarrow> cs' n = cs n)
     \<and> prefix tr tr'"
proof (induction steps arbitrary: cs tr ok steps' cs' tr')
  case Nil
  then show ?case by simp
next
  case (Cons x xs)
  show ?case
  proof (cases "requests (name x)")
    case None
    obtain ok1 xs1 cs1 tr1 where r: "revise_steps mx B requests xs cs tr = (ok1, xs1, cs1, tr1)"
      by (cases "revise_steps mx B requests xs cs tr") auto
    with None Cons.prems have e: "ok = ok1" "steps' = x # xs1" "cs' = cs1" "tr' = tr1"
      by simp_all
    from Cons.IH [OF r] show ?thesis
      unfolding e by (auto simp: nth_Cons split: nat.splits)
  next
    case (Some request)
    obtain ex x' c tr1 where s: "revise_step_with_llms mx B x request tr = (ex, x', c, tr1)"
      by (cases "revise_step_with_llms mx B x request tr") auto
    have nm: "name x' = name x"
      using s by (rule revise_step_with_llms_step(1))
    have p1: "prefix tr tr1"
      using revise_loop_bounds [of mx B x "initial_context x request" tr ex x' c tr1] s
      by (simp add: revise_step_with_llms_def)
    show ?thesis
    proof (cases "ex = ABORTED")
      case True
      with Some s Cons.prems have e: "ok = False" "steps' = x' # xs" "cs' = cs" "tr' = tr1"
        by simp_all
      show ?thesis
        unfolding e using Some nm p1 by (auto simp: nth_Cons split: nat.splits)
    next
      case False
      obtain ok1 xs1 cs1 tr2 where
        r: "revise_steps mx B requests xs (cs(name x \<mapsto> c)) tr1 = (ok1, xs1, cs1, tr2)"
        by (cases "revise_steps mx B requests xs (cs(name x \<mapsto> c)) tr1") auto
      with False Some s Cons.prems have e: "ok = ok1" "steps' = x' # xs1" "cs' = cs1" "tr' = tr2"
        by simp_all
      from Cons.IH [OF r] Some nm p1 show ?thesis
        unfolding e by (auto simp: nth_Cons split: nat.splits elim: prefix_order.trans)
    qed
  qed
qed

lemma revise_steps_filter:
  "revise_steps mx B requests steps cs tr = (ok, steps', cs', tr')
   \<Longrightarrow> \<exists>kept. revise_steps mx B requests (filter (\<lambda>s. requests (name s) \<noteq> None) steps) cs tr
              = (ok, kept, cs', tr')"
proof (induction steps arbitrary: cs tr ok steps' cs' tr')
  case Nil
  then show ?case by simp
next
  case (Cons x xs)
  show ?case
  proof (cases "requests (name x)")
    case None
    obtain ok1 xs1 cs1 tr1 where r: "revise_steps mx B requests xs cs tr = (ok1, xs1, cs1, tr1)"
      by (cases "revise_steps mx B requests xs cs tr") auto
    with None Cons.prems have e: "ok = ok1" "cs' = cs1" "tr' = tr1"
      by simp_all
    from Cons.IH [OF r] None show ?thesis
      unfolding e by simp
  next
    case (Some request)
    obtain ex x' c tr1 where s: "revise_step_with_llms mx B x request tr = (ex, x', c, tr1)"
      by (cases "revise_step_with_llms mx B x request tr") auto
    show ?thesis
    proof (cases "ex = ABORTED")
      case True
      with Some s Cons.prems show ?thesis by simp
    next
      case False
      obtain ok1 xs1 cs1 tr2 where
        r: "revise_steps mx B requests xs (cs(name x \<mapsto> c)) tr1 = (ok1, xs1, cs1, tr2)"
        by (cases "revise_steps mx B requests xs (cs(name x \<mapsto> c)) tr1") auto
      with False Some s Cons.prems have e: "ok = ok1" "cs' = cs1" "tr' = tr2"
        by simp_all
      from Cons.IH [OF r] obtain kept where
        "revise_steps mx B requests (filter (\<lambda>s. requests (name s) \<noteq> None) xs)
           (cs(name x \<mapsto> c)) tr1 = (ok1, kept, cs1, tr2)"
        by blast
      with False Some s show ?thesis
        unfolding e by simp
    qed
  qed
qed

lemma results_append [simp]: "results (xs @ ys) = results xs @ results ys"
  by (induction xs rule: results.induct) simp_all

section \<open>Growth of the histories and first events of a round\<close>

lemma revise_round_rejected_growth:
  "revise_round B step c tr = (RoundRejected, c', tr')
   \<Longrightarrow> length (claude_messages c') = length (claude_messages c) + 4
     \<and> length (gemini_history c') = length (gemini_history c) + 2"
  by (auto simp: revise_round_def get_claude_response_def get_gemini_response_def Let_def
           split: prod.splits option.splits api_result.splits if_splits)

lemma rejected_rounds_histories:
  "rejected_rounds B step n c tr = Some (c', tr')
   \<Longrightarrow> length (claude_messages c') = length (claude_messages c) + 4 * n
     \<and> length (gemini_history c') = length (gemini_history c) + 2 * n
     \<and> prefix (claude_messages c) (claude_messages c')
     \<and> prefix (gemini_history c) (gemini_history c')"
proof (induction n arbitrary: c tr)
  case 0
  then show ?case by simp
next
  case (Suc n)
  obtain res c1 tr1 where r: "revise_round B step c tr = (res, c1, tr1)"
    by (cases "revise_round B step c tr") auto
  with Suc.prems have res: "res = RoundRejected"
    and rest: "rejected_rounds B step n (c1\<lparr>current_iteration := current_iteration c1 + 1\<rparr>) tr1
                 = Some (c', tr')"
    by (auto split: round_result.splits)
  from Suc.IH [OF rest] revise_round_rejected_growth [OF r [unfolded res]]
       revise_round_effect(4,5) [OF r]
  show ?case
    by (auto elim: prefix_order.trans)
qed

lemma rejected_rounds_add:
  "rejected_rounds B step (n + m) c tr = Some (c2, t2)
   \<Longrightarrow> \<exists>c1 t1. rejected_rounds B step n c tr = Some (c1, t1)
              \<and> rejected_rounds B step m c1 t1 = Some (c2, t2)"
proof (induction n arbitrary: c tr)
  case 0
  then show ?case by simp
next
  case (Suc n)
  obtain res c1 tr1 where r: "revise_round B step c tr = (res, c1, tr1)"
    by (cases "revise_round B step c tr") auto
  with Suc.prems have res: "res = RoundRejected"
    and rest: "rejected_rounds B step (n + m) (c1\<lparr>current_iteration := current_iteration c1 + 1\<rparr>) tr1
                 = Some (c2, t2)"
    by (auto split: round_result.splits)
  from Suc.IH [OF rest] r res show ?case by simp
qed

lemma revise_round_first_events:
  assumes "revise_round B step c tr = (res, c', tr')"
  shows "prefix (tr @ [LogIteration (current_iteration c) (name step),
                       MessagesCreate (claude_messages c @ [(''user'', claude_prompt c)])
                         (messages_create B (tr @ [LogIteration (current_iteration c) (name step)])
                            (claude_messages c @ [(''user'', claude_prompt c)]))]) tr'"
proof -
  let ?t0 = "tr @ [LogIteration (current_iteration c) (name step)]"
  let ?msgs = "claude_messages c @ [(''user'', claude_prompt c)]"
  let ?first = "?t0 @ [MessagesCreate ?msgs (messages_create B ?t0 ?msgs)]"
  have first: "prefix ?first (snd (snd (get_claude_response B c (claude_prompt c) ?t0)))"
    by (simp add: get_claude_response_def Let_def split: api_result.splits)
  from assms have "prefix ?first tr'"
  proof (cases rule: revise_round_cases)
    case (instruct_failed x)
    with first show ?thesis by simp
  next
    case (revise_failed gp c1 t1 x)
    from first revise_failed(1) have "prefix ?first t1" by simp
    then show ?thesis
      using get_gemini_response_effect(3) [OF revise_failed(3)] by (rule prefix_order.trans)
  next
    case (reviewed gp c1 t1 rc c2 t2 x)
    from first reviewed(1) have "prefix ?first t1" by simp
    then have "prefix ?first t2"
      using get_gemini_response_effect(3) [OF reviewed(3)] by (rule prefix_order.trans)
    then show ?thesis
      using get_claude_response_effect(3) [OF reviewed(5)] by (rule prefix_order.trans)
  qed
  then show ?thesis by simp
qed

lemma revise_loop_first_events:
  assumes "revise_loop mx B step c tr = (ex, step', c', tr')" and "current_iteration c \<le> mx"
  shows "prefix (tr @ [LogIteration (current_iteration c) (name step),
                       MessagesCreate (claude_messages c @ [(''user'', claude_prompt c)])
                         (messages_create B (tr @ [LogIteration (current_iteration c) (name step)])
                            (claude_messages c @ [(''user'', claude_prompt c)]))]) tr'"
proof -
  obtain res c1 tr1 where r: "revise_round B step c tr = (res, c1, tr1)"
    by (cases "revise_round B step c tr") auto
  note p = revise_round_first_events [OF r]
  show ?thesis
  proof (cases res)
    case RoundAborted
    with assms r p show ?thesis by (simp add: revise_loop_aborted)
  next
    case (RoundAccepted x)
    with assms r have "tr' = tr1 @ [LogAccepted (name step)]"
      by (simp add: revise_loop_accepted)
    with p show ?thesis
      by simp
  next
    case RoundRejected
    with assms r have "revise_loop mx B step (c1\<lparr>current_iteration := current_iteration c1 + 1\<rparr>) tr1
                         = (ex, step', c', tr')"
      by (simp add: revise_loop_rejected)
    from revise_loop_bounds [OF this] have "prefix tr1 tr'" by simp
    with p show ?thesis by (blast intro: prefix_order.trans)
  qed
qed

section \<open>Results of the calls of a round and of an invocation\<close>

lemma revise_round_results:
  assumes "revise_round B step c t = (res, c', t')"
  shows "\<exists>seg. t' = t @ seg \<and>
     (case res of
        RoundRejected \<Rightarrow>
          (\<exists>g r v. results seg = [Replies g, Replies r, Replies v]
             \<and> g \<noteq> [] \<and> r \<noteq> [] \<and> v \<noteq> [] \<and> \<not> str_contains (upper B v) ''YES'')
      | RoundAccepted x \<Rightarrow>
          (\<exists>g v. results seg = [Replies g, Replies x, Replies v]
             \<and> g \<noteq> [] \<and> x \<noteq> [] \<and> v \<noteq> [] \<and> str_contains (upper B v) ''YES'')
      | RoundAborted \<Rightarrow>
          (\<exists>good bad. results seg = good @ [bad]
             \<and> list_all returned_text good \<and> \<not> returned_text bad))"
proof -
  let ?t0 = "t @ [LogIteration (current_iteration c) (name step)]"
  have claude: "\<exists>seg. tr' = tr @ seg \<and> results seg = [r] \<and> (returned_text r \<longleftrightarrow> x \<noteq> None \<and> x \<noteq> Some [])
                  \<and> (\<forall>s. x = Some s \<longrightarrow> r = Replies s)"
    if "get_claude_response B ctx p tr = (x, ctx', tr')" and "r = messages_create B tr (claude_messages ctx @ [(''user'', p)])"
    for ctx p tr x ctx' tr' r
    using that by (auto simp: get_claude_response_def Let_def split: api_result.splits)
  have gemini: "\<exists>seg. tr' = tr @ seg \<and> results seg = [r] \<and> (returned_text r \<longleftrightarrow> x \<noteq> None \<and> x \<noteq> Some [])
                  \<and> (\<forall>s. x = Some s \<longrightarrow> r = Replies s)"
    if "get_gemini_response B ctx p tr = (x, ctx', tr')" and "r = send_message B tr (formatted_history (gemini_history ctx)) p"
    for ctx p tr x ctx' tr' r
    using that by (auto simp: get_gemini_response_def Let_def split: api_result.splits)
  from assms show ?thesis
  proof (cases rule: revise_round_cases)
    case (instruct_failed x)
    from claude [OF instruct_failed(1) refl] obtain seg r where
      s: "t' = ?t0 @ seg" "results seg = [r]" "returned_text r \<longleftrightarrow> x \<noteq> None \<and> x \<noteq> Some []"
      by blast
    let ?seg = "LogIteration (current_iteration c) (name step) # seg"
    have t: "t' = t @ ?seg"
      using s(1) by simp
    have "\<not> returned_text r"
      using s(3) instruct_failed(2) by auto
    then have "\<exists>good bad. results ?seg = good @ [bad]
                 \<and> list_all returned_text good \<and> \<not> returned_text bad"
      using s(2) by (intro exI [of _ "[]"] exI [of _ r]) simp
    then show ?thesis
      unfolding instruct_failed(3) using t by (intro exI [of _ ?seg]) simp
  next
    case (revise_failed gp c1 t1 x)
    from claude [OF revise_failed(1) refl] obtain seg1 r1 where
      s1: "t1 = ?t0 @ seg1" "results seg1 = [r1]" "r1 = Replies gp"
      by blast
    from gemini [OF revise_failed(3) refl] obtain seg2 r2 where
      s2: "t' = t1 @ seg2" "results seg2 = [r2]" "returned_text r2 \<longleftrightarrow> x \<noteq> None \<and> x \<noteq> Some []"
      by blast
    let ?seg = "LogIteration (current_iteration c) (name step) # seg1 @ seg2"
    have t: "t' = t @ ?seg"
      using s1(1) s2(1) by simp
    have "\<not> returned_text r2"
      using s2(3) revise_failed(4) by auto
    then have "\<exists>good bad. results ?seg = good @ [bad]
                 \<and> list_all returned_text good \<and> \<not> returned_text bad"
      using s1(2,3) s2(2) revise_failed(2)
      by (intro exI [of _ "[Replies gp]"] exI [of _ r2]) simp
    then show ?thesis
      unfolding revise_failed(5) using t by (intro exI [of _ ?seg]) simp
  next
    case (reviewed gp c1 t1 rc c2 t2 x)
    from claude [OF reviewed(1) refl] obtain seg1 r1 where
      s1: "t1 = ?t0 @ seg1" "results seg1 = [r1]" "r1 = Replies gp"
      by blast
    from gemini [OF reviewed(3) refl] obtain seg2 r2 where
      s2: "t2 = t1 @ seg2" "results seg2 = [r2]" "r2 = Replies rc"
      by blast
    from claude [OF reviewed(5) refl] obtain seg3 r3 where
      s3: "t' = t2 @ seg3" "results seg3 = [r3]" "returned_text r3 \<longleftrightarrow> x \<noteq> None \<and> x \<noteq> Some []"
          "\<forall>s. x = Some s \<longrightarrow> r3 = Replies s"
      by blast
    let ?seg = "LogIteration (current_iteration c) (name step) # seg1 @ seg2 @ seg3"
    have t: "t' = t @ ?seg"
      using s1(1) s2(1) s3(1) by simp
    have r: "results ?seg = [Replies gp, Replies rc, r3]"
      using s1(2,3) s2(2,3) s3(2) by simp
    show ?thesis
    proof (cases "x = None \<or> x = Some []")
      case True
      then have res: "res = RoundAborted"
        using reviewed(6) by auto
      have "\<not> returned_text r3"
        using s3(3) True by auto
      then have "\<exists>good bad. results ?seg = good @ [bad]
                   \<and> list_all returned_text good \<and> \<not> returned_text bad"
        using r reviewed(2,4)
        by (intro exI [of _ "[Replies gp, Replies rc]"] exI [of _ r3]) simp
      then show ?thesis
        unfolding res using t by (intro exI [of _ ?seg]) simp
    next
      case False
      then obtain v where v: "x = Some v" "v \<noteq> []"
        by (cases x) auto
      with s3(4) have r3: "r3 = Replies v" by simp
      show ?thesis
      proof (cases "str_contains (upper B v) ''YES''")
        case True
        with v reviewed(6) have res: "res = RoundAccepted rc" by simp
        show ?thesis
          unfolding res using t r r3 v True reviewed(2,4)
          by (intro exI [of _ ?seg]) simp
      next
        case False
        with v reviewed(6) have res: "res = RoundRejected" by simp
        show ?thesis
          unfolding res using t r r3 v False reviewed(2,4)
          by (intro exI [of _ ?seg]) simp
      qed
    qed
  qed
qed

lemma revise_loop_results:
  "revise_loop mx B step c t = (ex, step', c', t')
   \<Longrightarrow> \<exists>seg. t' = t @ seg
        \<and> (ex = ABORTED \<longrightarrow> \<not> list_all returned_text (results seg))
        \<and> (ex = ACCEPTED \<longrightarrow> list_all returned_text (results seg)
              \<and> list_ex (accepting B) (review_results (results seg)))
        \<and> (ex = EXHAUSTED \<longrightarrow> list_all returned_text (results seg)
              \<and> \<not> list_ex (accepting B) (review_results (results seg))
              \<and> length (results seg) = 3 * nat (mx + 1 - current_iteration c))"
proof (induction c t rule: revise_loop_induct [where mx = mx and B = B and step = step])
  case (exhausted c t)
  then have "ex = EXHAUSTED" "t' = t @ [LogMaxIterations (name step)]"
    by (auto simp add: revise_loop_exhausted)
  with exhausted(1) show ?case
    by (intro exI [of _ "[LogMaxIterations (name step)]"]) auto
next
  case (aborted c t c1 t1)
  then have e: "ex = ABORTED" "t' = t1"
    by (simp_all add: revise_loop_aborted)
  from revise_round_results [OF aborted(2)] obtain seg good bad where
    "t1 = t @ seg" "results seg = good @ [bad]" "\<not> returned_text bad"
    by auto
  with e show ?case
    by (intro exI [of _ seg]) simp
next
  case (accepted c t r c1 t1)
  then have e: "ex = ACCEPTED" "t' = t1 @ [LogAccepted (name step)]"
    by (simp_all add: revise_loop_accepted)
  from revise_round_results [OF accepted(2)] obtain seg g v where
    "t1 = t @ seg" "results seg = [Replies g, Replies r, Replies v]"
    "g \<noteq> []" "r \<noteq> []" "v \<noteq> []" "str_contains (upper B v) ''YES''"
    by auto
  with e show ?case
    by (intro exI [of _ "seg @ [LogAccepted (name step)]"]) simp
next
  case (rejected c t c1 t1)
  have it: "current_iteration c1 = current_iteration c"
    using rejected(2) by (rule revise_round_current_iteration)
  from rejected have "revise_loop mx B step (c1\<lparr>current_iteration := current_iteration c1 + 1\<rparr>) t1
      = (ex, step', c', t')"
    by (simp add: revise_loop_rejected)
  from rejected(3) [OF this] obtain rest where
    rest: "t' = t1 @ rest"
      "ex = ABORTED \<longrightarrow> \<not> list_all returned_text (results rest)"
      "ex = ACCEPTED \<longrightarrow> list_all returned_text (results rest)
              \<and> list_ex (accepting B) (review_results (results rest))"
      "ex = EXHAUSTED \<longrightarrow> list_all returned_text (results rest)
              \<and> \<not> list_ex (accepting B) (review_results (results rest))
              \<and> length (results rest) = 3 * nat (mx - current_iteration c)"
    by (auto simp: it)
  from revise_round_results [OF rejected(2)] obtain seg g r v where
    seg: "t1 = t @ seg" "results seg = [Replies g, Replies r, Replies v]"
    "g \<noteq> []" "r \<noteq> []" "v \<noteq> []" "\<not> str_contains (upper B v) ''YES''"
    by auto
  have n: "nat (mx + 1 - current_iteration c) = Suc (nat (mx - current_iteration c))"
    using rejected(1) by simp
  show ?case
    using rest seg by (intro exI [of _ "seg @ rest"]) (simp add: n)
qed

lemma wrapper_call_is_one_attempt:
  "calls (snd (snd (get_claude_response B ctx p tr))) = calls tr + 1"
  "calls (snd (snd (get_gemini_response B ctx p tr))) = calls tr + 1"
  "send_message B tr (formatted_history (gemini_history ctx)) p = Raises e \<Longrightarrow>
   fst (get_gemini_response B ctx p tr) = None"
  by (simp_all add: get_claude_response_def get_gemini_response_def Let_def
        split: api_result.splits)

section \<open>Failure and success of a single wrapper call\<close>

text \<open>
  Claim C10. The two wrappers treat their history differently when the backend call fails.
  \<^verbatim>\<open>get_claude_response\<close> appends the prompt before it calls, so a failing call returns
  \<^verbatim>\<open>None\<close> and leaves \<^verbatim>\<open>claude_messages\<close> longer by exactly the unanswered prompt;
  \<^verbatim>\<open>get_gemini_response\<close> appends only after a reply, so a failing call returns \<^verbatim>\<open>None\<close>
  and leaves \<^verbatim>\<open>gemini_history\<close> as it was. A successful call of either wrapper returns the
  reply and appends two entries to its history, the request and then the reply.
\<close>

theorem wrapper_history_growth:
  fixes B :: environment and ctx :: RevisionContext and p :: string and tr :: "event list"
  defines "cl \<equiv> get_claude_response B ctx p tr"
      and "ge \<equiv> get_gemini_response B ctx p tr"
  shows "(\<forall>e. messages_create B tr (claude_messages ctx @ [(''user'', p)]) = Raises e \<longrightarrow>
            fst cl = None
          \<and> claude_messages (fst (snd cl)) = claude_messages ctx @ [(''user'', p)]
          \<and> length (claude_messages (fst (snd cl))) = length (claude_messages ctx) + 1)
       \<and> (\<forall>t. messages_create B tr (claude_messages ctx @ [(''user'', p)]) = Replies t \<longrightarrow>
            fst cl = Some t
          \<and> claude_messages (fst (snd cl))
              = claude_messages ctx @ [(''user'', p), (''assistant'', t)]
          \<and> length (claude_messages (fst (snd cl))) = length (claude_messages ctx) + 2)
       \<and> (\<forall>e. send_message B tr (formatted_history (gemini_history ctx)) p = Raises e \<longrightarrow>
            fst ge = None
          \<and> gemini_history (fst (snd ge)) = gemini_history ctx)
       \<and> (\<forall>t. send_message B tr (formatted_history (gemini_history ctx)) p = Replies t \<longrightarrow>
            fst ge = Some t
          \<and> gemini_history (fst (snd ge))
              = gemini_history ctx @ [(''user'', p), (''model'', t)]
          \<and> length (gemini_history (fst (snd ge))) = length (gemini_history ctx) + 2)"
  unfolding cl_def ge_def
  by (simp add: get_claude_response_def get_gemini_response_def Let_def)

theorem wrapper_history_growth_witness:
  "fst (get_claude_response failing_backends sample_context ''review'' []) = None
   \<and> length (claude_messages (fst (snd (get_claude_response failing_backends sample_context ''review'' [])))) = 3
   \<and> fst (get_gemini_response failing_backends sample_context ''be longer'' []) = None
   \<and> length (gemini_history (fst (snd (get_gemini_response failing_backends sample_context ''be longer'' [])))) = 0
   \<and> fst (get_claude_response rejecting_backends sample_context ''review'' []) = Some ''NO needs work''
   \<and> length (claude_messages (fst (snd (get_claude_response rejecting_backends sample_context ''review'' [])))) = 4
   \<and> fst (get_gemini_response rejecting_backends sample_context ''be longer'' []) = Some ''Body, second draft''
   \<and> length (gemini_history (fst (snd (get_gemini_response rejecting_backends sample_context ''be longer'' [])))) = 2"
  using wrapper_history_growth [of failing_backends "[]" sample_context "''review''"]
        wrapper_history_growth [of failing_backends "[]" sample_context "''be longer''"]
        wrapper_history_growth [of rejecting_backends "[]" sample_context "''review''"]
        wrapper_history_growth [of rejecting_backends "[]" sample_context "''be longer''"]
  by (simp add: failing_backends_def rejecting_backends_def sample_context_def)

section \<open>The verdict\<close>

text \<open>
  Claim C5. The verdict is the substring test for the token \<^verbatim>\<open>YES\<close> on the capitalised
  reply, where the capitalisation is Python's \<^verbatim>\<open>str.upper\<close>: the test of the source holds of
  a reply \<open>v\<close> exactly when \<^verbatim>\<open>YES\<close> occurs somewhere in \<open>v.upper()\<close>. In a round whose
  instruction and revision calls returned text and whose review call returned \<open>v\<close>, the
  round accepts the revision if and only if that holds, and rejects it otherwise (the empty
  reply, which has no occurrence, ends the round as aborted); nothing else of the reply is
  looked at.
\<close>

theorem verdict_is_substring_test_on_uppercased_reply:
  "(str_contains (upper B v) ''YES'' \<longleftrightarrow> (\<exists>ps ss. upper B v = ps @ ''YES'' @ ss))
   \<and> (get_claude_response B c (claude_prompt c)
           (tr @ [LogIteration (current_iteration c) (name step)]) = (Some g, c1, t1)
        \<and> g \<noteq> []
        \<and> get_gemini_response B c1 g t1 = (Some r, c2, t2) \<and> r \<noteq> []
        \<and> get_claude_response B c2 (review_prompt c2 r) t2 = (Some v, c3, t3)
       \<longrightarrow> (fst (revise_round B step c tr) = RoundAccepted r
              \<longleftrightarrow> (\<exists>ps ss. upper B v = ps @ ''YES'' @ ss))
         \<and> fst (revise_round B step c tr)
             = (if v = [] then RoundAborted
                else if (\<exists>ps ss. upper B v = ps @ ''YES'' @ ss) then RoundAccepted r
                else RoundRejected))"
proof -
  have a: "str_contains (upper B v) ''YES'' \<longleftrightarrow> (\<exists>ps ss. upper B v = ps @ ''YES'' @ ss)"
    by (simp add: str_contains_sublist sublist_def)
  have b: "(fst (revise_round B step c tr) = RoundAccepted r
              \<longleftrightarrow> (\<exists>ps ss. upper B v = ps @ ''YES'' @ ss))
         \<and> fst (revise_round B step c tr)
             = (if v = [] then RoundAborted
                else if (\<exists>ps ss. upper B v = ps @ ''YES'' @ ss) then RoundAccepted r
                else RoundRejected)"
    if h: "get_claude_response B c (claude_prompt c)
           (tr @ [LogIteration (current_iteration c) (name step)]) = (Some g, c1, t1)"
      "g \<noteq> []" "get_gemini_response B c1 g t1 = (Some r, c2, t2)" "r \<noteq> []"
      "get_claude_response B c2 (review_prompt c2 r) t2 = (Some v, c3, t3)"
  proof -
    have e: "v = [] \<Longrightarrow> \<not> str_contains (upper B v) ''YES''"
      by (simp add: upper_def)
    have d: "fst (revise_round B step c tr)
             = (if v = [] then RoundAborted
                else if str_contains (upper B v) ''YES'' then RoundAccepted r
                else RoundRejected)"
      by (simp add: revise_round_reviewed [OF h])
    then have "fst (revise_round B step c tr) = RoundAccepted r
                 \<longleftrightarrow> str_contains (upper B v) ''YES''"
      using e by (cases "v = []") simp_all
    with d show ?thesis
      unfolding a by (intro conjI)
  qed
  from a b show ?thesis by blast
qed

theorem verdict_is_substring_test_on_uppercased_reply_witness:
  "fst (revise_round sharp_s_reviewer_backends body_step
          (initial_context body_step ''add more detail'') []) = RoundAccepted ''Body, second draft''
   \<and> upper sharp_s_reviewer_backends (''ye'' @ [CHR 0xC3, CHR 0x9F]) = ''YESS''
   \<and> (\<exists>ps ss. upper sharp_s_reviewer_backends (''ye'' @ [CHR 0xC3, CHR 0x9F])
                 = ps @ ''YES'' @ ss)
   \<and> fst (revise_round rejecting_backends body_step
          (initial_context body_step ''add more detail'') []) = RoundRejected
   \<and> \<not> (\<exists>ps ss. upper rejecting_backends ''NO needs work'' = ps @ ''YES'' @ ss)"
proof -
  let ?c = "initial_context body_step ''add more detail''"
  let ?t = "[] @ [LogIteration (current_iteration ?c) (name body_step)]"
  let ?A = "sharp_s_reviewer_backends"
  let ?R = "rejecting_backends"
  let ?v = "''ye'' @ [CHR 0xC3, CHR 0x9F]"
  define a1 where "a1 = get_claude_response ?A ?c (claude_prompt ?c) ?t"
  define a2 where "a2 = get_gemini_response ?A (fst (snd a1)) ''Add detail'' (snd (snd a1))"
  define a3 where "a3 = get_claude_response ?A (fst (snd a2))
                          (review_prompt (fst (snd a2)) ''Body, second draft'') (snd (snd a2))"
  have A1: "get_claude_response ?A ?c (claude_prompt ?c) ?t
              = (Some ''Add detail'', fst (snd a1), snd (snd a1))"
    by (simp add: a1_def get_claude_response_def Let_def stub_defs)
  have A2: "get_gemini_response ?A (fst (snd a1)) ''Add detail'' (snd (snd a1))
              = (Some ''Body, second draft'', fst (snd a2), snd (snd a2))"
    by (simp add: a2_def a1_def get_claude_response_def get_gemini_response_def
                  formatted_history_def Let_def stub_defs)
  have A3: "get_claude_response ?A (fst (snd a2))
               (review_prompt (fst (snd a2)) ''Body, second draft'') (snd (snd a2))
              = (Some ?v, fst (snd a3), snd (snd a3))"
    by (simp add: a3_def a2_def a1_def get_claude_response_def get_gemini_response_def
                  formatted_history_def Let_def stub_defs)
  define b1 where "b1 = get_claude_response ?R ?c (claude_prompt ?c) ?t"
  define b2 where "b2 = get_gemini_response ?R (fst (snd b1)) ''NO needs work'' (snd (snd b1))"
  define b3 where "b3 = get_claude_response ?R (fst (snd b2))
                          (review_prompt (fst (snd b2)) ''Body, second draft'') (snd (snd b2))"
  have B1: "get_claude_response ?R ?c (claude_prompt ?c) ?t
              = (Some ''NO needs work'', fst (snd b1), snd (snd b1))"
    by (simp add: b1_def get_claude_response_def Let_def stub_defs)
  have B2: "get_gemini_response ?R (fst (snd b1)) ''NO needs work'' (snd (snd b1))
              = (Some ''Body, second draft'', fst (snd b2), snd (snd b2))"
    by (simp add: b2_def b1_def get_claude_response_def get_gemini_response_def
                  formatted_history_def Let_def stub_defs)
  have B3: "get_claude_response ?R (fst (snd b2))
               (review_prompt (fst (snd b2)) ''Body, second draft'') (snd (snd b2))
              = (Some ''NO needs work'', fst (snd b3), snd (snd b3))"
    by (simp add: b3_def b2_def b1_def get_claude_response_def get_gemini_response_def
                  formatted_history_def Let_def stub_defs)
  have up: "upper ?A ?v = ''YESS''"
    by (simp add: upper_def upper_char_def stub_defs)
  have yes: "str_contains (upper ?A ?v) ''YES''"
    unfolding up by simp
  have no: "\<not> str_contains (upper ?R ''NO needs work'') ''YES''"
    by (simp add: upper_def upper_char_def stub_defs)
  from verdict_is_substring_test_on_uppercased_reply
         [of ?A ?v ?c "[]" body_step "''Add detail''"
             "fst (snd a1)" "snd (snd a1)" "''Body, second draft''" "fst (snd a2)" "snd (snd a2)"
             "fst (snd a3)" "snd (snd a3)"]
       verdict_is_substring_test_on_uppercased_reply
         [of ?R "''NO needs work''" ?c "[]" body_step "''NO needs work''"
             "fst (snd b1)" "snd (snd b1)" "''Body, second draft''" "fst (snd b2)" "snd (snd b2)"
             "fst (snd b3)" "snd (snd b3)"]
       A1 A2 A3 B1 B2 B3 yes no up
  show ?thesis by simp
qed

section \<open>Failed model calls\<close>

text \<open>
  Claim C6. A failure of a model call never leaves the wrappers as an exception: whenever
  the backend raises, \<^verbatim>\<open>get_claude_response\<close> and \<^verbatim>\<open>get_gemini_response\<close> return \<^verbatim>\<open>None\<close>.
  In any round the loop reaches (here the round after \<open>n\<close> rejected ones, \<open>n\<close> below the cap),
  as soon as the instruction call, the revision call or the review call yields \<^verbatim>\<open>None\<close>,
  \<^verbatim>\<open>revise_step_with_llms\<close> returns \<^verbatim>\<open>None\<close> together with the context as that call left it,
  and the step is as it was before the invocation.
\<close>

theorem failed_call_aborts_without_writing:
  assumes reach: "rejected_rounds B step n (initial_context step request) tr = Some (c, t)"
    and n: "int n < mx"
  shows "(messages_create B tr0 (claude_messages ctx @ [(''user'', p)]) = Raises e
            \<longrightarrow> fst (get_claude_response B ctx p tr0) = None)
       \<and> (send_message B tr0 (formatted_history (gemini_history ctx)) p = Raises e
            \<longrightarrow> fst (get_gemini_response B ctx p tr0) = None)
       \<and> (get_claude_response B c (claude_prompt c)
             (t @ [LogIteration (current_iteration c) (name step)]) = (None, c1, t1)
            \<longrightarrow> revise_step_with_llms mx B step request tr = (ABORTED, step, c1, t1))
       \<and> (get_claude_response B c (claude_prompt c)
             (t @ [LogIteration (current_iteration c) (name step)]) = (Some g, c1, t1)
           \<and> g \<noteq> [] \<and> get_gemini_response B c1 g t1 = (None, c2, t2)
            \<longrightarrow> revise_step_with_llms mx B step request tr = (ABORTED, step, c2, t2))
       \<and> (get_claude_response B c (claude_prompt c)
             (t @ [LogIteration (current_iteration c) (name step)]) = (Some g, c1, t1)
           \<and> g \<noteq> [] \<and> get_gemini_response B c1 g t1 = (Some r, c2, t2) \<and> r \<noteq> []
           \<and> get_claude_response B c2 (review_prompt c2 r) t2 = (None, c3, t3)
            \<longrightarrow> revise_step_with_llms mx B step request tr = (ABORTED, step, c3, t3))"
proof -
  have it: "current_iteration c = 1 + int n"
    using rejected_rounds_effect [OF reach] by (simp add: initial_context_def)
  with n have le: "current_iteration c \<le> mx" by simp
  have loop: "revise_step_with_llms mx B step request tr = revise_loop mx B step c t"
    unfolding revise_step_with_llms_def
    using n by (intro revise_loop_after_rejected [OF reach]) (simp add: initial_context_def)
  have w1: "messages_create B tr0 (claude_messages ctx @ [(''user'', p)]) = Raises e
            \<longrightarrow> fst (get_claude_response B ctx p tr0) = None"
    by (simp add: get_claude_response_def Let_def)
  have w2: "send_message B tr0 (formatted_history (gemini_history ctx)) p = Raises e
            \<longrightarrow> fst (get_gemini_response B ctx p tr0) = None"
    by (simp add: get_gemini_response_def Let_def)
  have r1: "get_claude_response B c (claude_prompt c)
             (t @ [LogIteration (current_iteration c) (name step)]) = (None, c1, t1)
            \<longrightarrow> revise_step_with_llms mx B step request tr = (ABORTED, step, c1, t1)"
    using le by (simp add: loop revise_loop_aborted revise_round_instruct_failed)
  have r2: "get_claude_response B c (claude_prompt c)
             (t @ [LogIteration (current_iteration c) (name step)]) = (Some g, c1, t1)
           \<and> g \<noteq> [] \<and> get_gemini_response B c1 g t1 = (None, c2, t2)
            \<longrightarrow> revise_step_with_llms mx B step request tr = (ABORTED, step, c2, t2)"
    using le by (simp add: loop revise_loop_aborted revise_round_revise_failed)
  have r3: "get_claude_response B c (claude_prompt c)
             (t @ [LogIteration (current_iteration c) (name step)]) = (Some g, c1, t1)
           \<and> g \<noteq> [] \<and> get_gemini_response B c1 g t1 = (Some r, c2, t2) \<and> r \<noteq> []
           \<and> get_claude_response B c2 (review_prompt c2 r) t2 = (None, c3, t3)
            \<longrightarrow> revise_step_with_llms mx B step request tr = (ABORTED, step, c3, t3)"
    using le by (simp add: loop revise_loop_aborted revise_round_reviewed)
  from w1 w2 r1 r2 r3 show ?thesis by (intro conjI)
qed

theorem failed_call_aborts_without_writing_witness:
  "fst (get_claude_response failing_backends sample_context ''review'' []) = None
   \<and> fst (get_gemini_response failing_backends sample_context ''be longer'' []) = None
   \<and> fst (revise_step_with_llms MAX_ITERATIONS failing_backends body_step ''add more detail'' [])
        = ABORTED
   \<and> fst (snd (revise_step_with_llms MAX_ITERATIONS failing_backends body_step
                  ''add more detail'' [])) = body_step
   \<and> fst (revise_step_with_llms MAX_ITERATIONS gemini_down_backends body_step ''add more detail'' [])
        = ABORTED
   \<and> fst (snd (revise_step_with_llms MAX_ITERATIONS gemini_down_backends body_step
                  ''add more detail'' [])) = body_step
   \<and> fst (revise_step_with_llms MAX_ITERATIONS (claude_failing_at 2) body_step
             ''add more detail'' []) = ABORTED
   \<and> fst (snd (revise_step_with_llms MAX_ITERATIONS (claude_failing_at 2) body_step
                  ''add more detail'' [])) = body_step"
proof -
  let ?c = "initial_context body_step ''add more detail''"
  let ?t = "[] @ [LogIteration (current_iteration ?c) (name body_step)]"
  let ?F = "failing_backends"
  let ?G = "gemini_down_backends"
  let ?C = "claude_failing_at 2"
  have n: "int 0 < MAX_ITERATIONS"
    by (simp add: MAX_ITERATIONS_def)
  have reach: "rejected_rounds B body_step 0 ?c [] = Some (?c, [])" for B
    by simp
  define f1 where "f1 = get_claude_response ?F ?c (claude_prompt ?c) ?t"
  have F0: "messages_create ?F [] (claude_messages sample_context @ [(''user'', ''review'')])
              = Raises ''overloaded_error''"
    by (simp add: stub_defs)
  have F0': "send_message ?F [] (formatted_history (gemini_history sample_context)) ''be longer''
              = Raises ''503 service unavailable''"
    by (simp add: stub_defs)
  have F1: "get_claude_response ?F ?c (claude_prompt ?c) ?t = (None, fst (snd f1), snd (snd f1))"
    by (simp add: f1_def get_claude_response_def Let_def stub_defs)
  define g1 where "g1 = get_claude_response ?G ?c (claude_prompt ?c) ?t"
  define g2 where "g2 = get_gemini_response ?G (fst (snd g1)) ''NO needs work'' (snd (snd g1))"
  have G1: "get_claude_response ?G ?c (claude_prompt ?c) ?t
              = (Some ''NO needs work'', fst (snd g1), snd (snd g1))"
    by (simp add: g1_def get_claude_response_def Let_def stub_defs)
  have G2: "get_gemini_response ?G (fst (snd g1)) ''NO needs work'' (snd (snd g1))
              = (None, fst (snd g2), snd (snd g2))"
    by (simp add: g2_def g1_def get_claude_response_def get_gemini_response_def
                  formatted_history_def Let_def stub_defs)
  define c1 where "c1 = get_claude_response ?C ?c (claude_prompt ?c) ?t"
  define c2 where "c2 = get_gemini_response ?C (fst (snd c1)) ''NO needs work'' (snd (snd c1))"
  define c3 where "c3 = get_claude_response ?C (fst (snd c2))
                          (review_prompt (fst (snd c2)) ''Body, second draft'') (snd (snd c2))"
  have C1: "get_claude_response ?C ?c (claude_prompt ?c) ?t
              = (Some ''NO needs work'', fst (snd c1), snd (snd c1))"
    by (simp add: c1_def get_claude_response_def Let_def stub_defs)
  have C2: "get_gemini_response ?C (fst (snd c1)) ''NO needs work'' (snd (snd c1))
              = (Some ''Body, second draft'', fst (snd c2), snd (snd c2))"
    by (simp add: c2_def c1_def get_claude_response_def get_gemini_response_def
                  formatted_history_def Let_def stub_defs)
  have C3: "get_claude_response ?C (fst (snd c2))
               (review_prompt (fst (snd c2)) ''Body, second draft'') (snd (snd c2))
              = (None, fst (snd c3), snd (snd c3))"
    by (simp add: c3_def c2_def c1_def get_claude_response_def get_gemini_response_def
                  formatted_history_def Let_def stub_defs)
  from failed_call_aborts_without_writing
         [OF reach [of ?F] n, where ?tr0.0 = "[]" and ctx = sample_context and p = "''review''"
            and e = "''overloaded_error''" and ?c1.0 = "fst (snd f1)" and ?t1.0 = "snd (snd f1)"]
       failed_call_aborts_without_writing
         [OF reach [of ?F] n, where ?tr0.0 = "[]" and ctx = sample_context and p = "''be longer''"
            and e = "''503 service unavailable''" and ?c1.0 = "fst (snd f1)"
            and ?t1.0 = "snd (snd f1)"]
       failed_call_aborts_without_writing
         [OF reach [of ?G] n, where g = "''NO needs work''" and ?c1.0 = "fst (snd g1)"
            and ?t1.0 = "snd (snd g1)" and ?c2.0 = "fst (snd g2)" and ?t2.0 = "snd (snd g2)"]
       failed_call_aborts_without_writing
         [OF reach [of ?C] n, where g = "''NO needs work''" and ?c1.0 = "fst (snd c1)"
            and ?t1.0 = "snd (snd c1)" and r = "''Body, second draft''"
            and ?c2.0 = "fst (snd c2)" and ?t2.0 = "snd (snd c2)"
            and ?c3.0 = "fst (snd c3)" and ?t3.0 = "snd (snd c3)"]
       F0 F0' F1 G1 G2 C1 C2 C3
  show ?thesis by simp
qed

section \<open>Termination within the iteration cap\<close>

text \<open>
  Claim C1, as amended. Whatever the backends reply, an invocation of
  \<^verbatim>\<open>revise_step_with_llms\<close> begins at most \<^verbatim>\<open>MAX_ITERATIONS\<close> rounds (and issues at most three
  backend calls for each). Unless a round accepts, the step is left exactly as it was. Read
  off the calls the invocation made: it ends as aborted if and only if one of them failed
  or returned the empty text; it ends in the exhausted state if and only if every one of
  them returned non-empty text and no review reply among them is accepting, and then
  exactly \<^verbatim>\<open>MAX_ITERATIONS\<close> rounds of three calls were run. (Equivalently, exhaustion is
  reached exactly when each of the \<^verbatim>\<open>MAX_ITERATIONS\<close> rounds ends with a rejecting review.)
\<close>

theorem revision_is_bounded:
  assumes run: "revise_step_with_llms mx B step request tr = (ex, step', c', tr')"
  shows "rounds tr' \<le> rounds tr + nat mx
       \<and> calls tr' \<le> calls tr + 3 * nat mx
       \<and> (ex \<noteq> ACCEPTED \<longrightarrow> step' = step)
       \<and> (ex = EXHAUSTED
            \<longleftrightarrow> rejected_rounds B step (nat mx) (initial_context step request) tr \<noteq> None)
       \<and> (ex = EXHAUSTED \<longrightarrow> rounds tr' = rounds tr + nat mx)
       \<and> (\<exists>seg. tr' = tr @ seg
            \<and> (ex = ABORTED \<longleftrightarrow> \<not> list_all returned_text (results seg))
            \<and> (ex = EXHAUSTED \<longleftrightarrow>
                 list_all returned_text (results seg)
                 \<and> \<not> list_ex (accepting B) (review_results (results seg)))
            \<and> (ex = EXHAUSTED \<longrightarrow> length (results seg) = 3 * nat mx))"
proof -
  let ?c0 = "initial_context step request"
  have c0: "current_iteration ?c0 = 1"
    by (simp add: initial_context_def)
  from run have loop: "revise_loop mx B step ?c0 tr = (ex, step', c', tr')"
    by (simp add: revise_step_with_llms_def)
  from revise_loop_bounds [OF loop]
  have b: "rounds tr' \<le> rounds tr + nat mx" "calls tr' \<le> calls tr + 3 * nat mx"
    by (simp_all add: c0)
  from revise_loop_step [OF loop] have s: "ex \<noteq> ACCEPTED \<longrightarrow> step' = step"
    by simp
  have only_if: "ex = EXHAUSTED \<Longrightarrow> rejected_rounds B step (nat mx) ?c0 tr \<noteq> None"
    using revise_loop_exhausted_only_if [of mx B step ?c0 tr step' c' tr'] loop
    by (simp add: c0)
  have "ex = EXHAUSTED \<and> rounds tr' = rounds tr + nat mx"
    if "rejected_rounds B step (nat mx) ?c0 tr \<noteq> None"
  proof -
    from that obtain c t where r: "rejected_rounds B step (nat mx) ?c0 tr = Some (c, t)"
      by auto
    from rejected_rounds_effect [OF r]
    have e: "current_iteration c = 1 + int (nat mx)" "rounds t = rounds tr + nat mx"
      by (simp_all add: c0)
    have "revise_loop mx B step ?c0 tr = revise_loop mx B step c t"
    proof (cases "0 \<le> mx")
      case True
      then show ?thesis
        by (intro revise_loop_after_rejected [OF r]) (simp add: c0)
    next
      case False
      with r show ?thesis by simp
    qed
    also have "\<dots> = (EXHAUSTED, step, c, t @ [LogMaxIterations (name step)])"
      using e(1) by (intro revise_loop_exhausted) simp
    finally show ?thesis
      using loop e(2) by simp
  qed
  with only_if have x: "ex = EXHAUSTED
            \<longleftrightarrow> rejected_rounds B step (nat mx) ?c0 tr \<noteq> None"
    "ex = EXHAUSTED \<longrightarrow> rounds tr' = rounds tr + nat mx"
    by blast+
  from revise_loop_results [OF loop] obtain seg where
    seg: "tr' = tr @ seg"
      "ex = ABORTED \<longrightarrow> \<not> list_all returned_text (results seg)"
      "ex = ACCEPTED \<longrightarrow> list_all returned_text (results seg)
              \<and> list_ex (accepting B) (review_results (results seg))"
      "ex = EXHAUSTED \<longrightarrow> list_all returned_text (results seg)
              \<and> \<not> list_ex (accepting B) (review_results (results seg))
              \<and> length (results seg) = 3 * nat mx"
    by (auto simp: c0)
  have r: "\<exists>seg. tr' = tr @ seg
            \<and> (ex = ABORTED \<longleftrightarrow> \<not> list_all returned_text (results seg))
            \<and> (ex = EXHAUSTED \<longleftrightarrow>
                 list_all returned_text (results seg)
                 \<and> \<not> list_ex (accepting B) (review_results (results seg)))
            \<and> (ex = EXHAUSTED \<longrightarrow> length (results seg) = 3 * nat mx)"
    using seg by (intro exI [of _ seg]) (cases ex; simp)
  from b s x r show ?thesis by (intro conjI)
qed

theorem revision_is_bounded_witness:
  "fst (revise_step_with_llms MAX_ITERATIONS rejecting_backends body_step ''add more detail'' [])
     = EXHAUSTED
   \<and> fst (snd (revise_step_with_llms MAX_ITERATIONS rejecting_backends body_step
                  ''add more detail'' [])) = body_step
   \<and> rounds (snd (snd (snd (revise_step_with_llms MAX_ITERATIONS rejecting_backends body_step
                  ''add more detail'' [])))) = 3
   \<and> calls (snd (snd (snd (revise_step_with_llms MAX_ITERATIONS rejecting_backends body_step
                  ''add more detail'' [])))) \<le> 9"
proof -
  define res where
    "res = revise_step_with_llms MAX_ITERATIONS rejecting_backends body_step ''add more detail'' []"
  have run: "revise_step_with_llms MAX_ITERATIONS rejecting_backends body_step ''add more detail'' []
               = (fst res, fst (snd res), fst (snd (snd res)), snd (snd (snd res)))"
    by (simp add: res_def)
  have rejected: "rejected_rounds rejecting_backends body_step (nat MAX_ITERATIONS)
                    (initial_context body_step ''add more detail'') [] \<noteq> None"
    by (simp add: eval_defs stub_defs eval_nat_numeral)
  from revision_is_bounded [OF run] rejected show ?thesis
    by (simp add: res_def MAX_ITERATIONS_def)
qed

text \<open>
  The claim as first stated promised the exhausted state whenever no review reply is
  accepting. A reviewer that answers with the empty text, or whose call raises, gives no
  accepting reply, and the invocation is aborted in round 1.
\<close>

theorem exhaustion_needs_completed_rounds_counterexample:
  "results (snd (snd (snd (revise_step_with_llms MAX_ITERATIONS silent_reviewer_backends
              body_step ''add more detail'' []))))
     = [Replies ''Add detail'', Replies ''Body, second draft'', Replies []]
   \<and> \<not> str_contains (upper silent_reviewer_backends []) ''YES''
   \<and> fst (revise_step_with_llms MAX_ITERATIONS silent_reviewer_backends body_step
             ''add more detail'' []) \<noteq> EXHAUSTED
   \<and> results (snd (snd (snd (revise_step_with_llms MAX_ITERATIONS (claude_failing_at 2)
              body_step ''add more detail'' []))))
     = [Replies ''NO needs work'', Replies ''Body, second draft'', Raises ''rate_limit_error'']
   \<and> fst (revise_step_with_llms MAX_ITERATIONS (claude_failing_at 2) body_step
             ''add more detail'' []) \<noteq> EXHAUSTED"
  by (simp add: eval_defs stub_defs revise_loop.simps)

section \<open>Acceptance\<close>

text \<open>
  Claim C2. Let round \<open>k\<close>, with \<open>k\<close> at most \<^verbatim>\<open>MAX_ITERATIONS\<close>, be reached (the \<open>k - 1\<close> rounds
  before it ended with a rejecting review), let its instruction call return \<open>g\<close>, its
  revision call return Gemini's text \<open>r\<close>, and its review call return a reply \<open>v\<close> that
  passes the verdict test. Then \<^verbatim>\<open>revise_step_with_llms\<close> returns successfully with \<open>r\<close>, the
  revision of that same round, written into the step's \<^verbatim>\<open>content\<close>; the trace ends right
  after that review with the acceptance record, exactly \<open>k\<close> rounds were begun, and the
  iteration counter stands at \<open>k\<close>.
\<close>

theorem accepted_round_writes_its_revision:
  assumes k: "1 \<le> k" "int k \<le> mx"
    and reach: "rejected_rounds B step (k - 1) (initial_context step request) tr = Some (c, t)"
    and instruct: "get_claude_response B c (claude_prompt c)
                     (t @ [LogIteration (current_iteration c) (name step)]) = (Some g, c1, t1)"
                  "g \<noteq> []"
    and revise: "get_gemini_response B c1 g t1 = (Some r, c2, t2)" "r \<noteq> []"
    and review: "get_claude_response B c2 (review_prompt c2 r) t2 = (Some v, c3, t3)"
    and accept: "str_contains (upper B v) ''YES''"
  shows "revise_step_with_llms mx B step request tr
           = (ACCEPTED, step\<lparr>content := r\<rparr>, c3, t3 @ [LogAccepted (name step)])
       \<and> rounds (t3 @ [LogAccepted (name step)]) = rounds tr + k
       \<and> current_iteration c3 = int k"
proof -
  let ?c0 = "initial_context step request"
  have c0: "current_iteration ?c0 = 1"
    by (simp add: initial_context_def)
  from rejected_rounds_effect [OF reach] k
  have e: "current_iteration c = int k" "rounds t = rounds tr + (k - 1)"
    by (simp_all add: c0)
  have "v \<noteq> []"
    using accept by (auto simp: upper_def)
  with revise_round_reviewed [OF instruct revise review] accept
  have round: "revise_round B step c t = (RoundAccepted r, c3, t3)"
    by simp
  have "revise_step_with_llms mx B step request tr = revise_loop mx B step c t"
    unfolding revise_step_with_llms_def
    using k by (intro revise_loop_after_rejected [OF reach]) (simp add: c0)
  also have "\<dots> = (ACCEPTED, step\<lparr>content := r\<rparr>, c3, t3 @ [LogAccepted (name step)])"
    using e(1) k(2) round by (intro revise_loop_accepted) simp_all
  finally have 1: "revise_step_with_llms mx B step request tr
           = (ACCEPTED, step\<lparr>content := r\<rparr>, c3, t3 @ [LogAccepted (name step)])" .
  from revise_round_effect(1) [OF round] e(2) k(1)
  have 2: "rounds (t3 @ [LogAccepted (name step)]) = rounds tr + k"
    by simp
  from revise_round_current_iteration [OF round] e(1)
  have 3: "current_iteration c3 = int k"
    by simp
  from 1 2 3 show ?thesis by (intro conjI)
qed

theorem accepted_round_writes_its_revision_witness:
  "fst (revise_step_with_llms MAX_ITERATIONS (accepting_in_round 2) body_step
          ''add more detail'' []) = ACCEPTED
   \<and> content (fst (snd (revise_step_with_llms MAX_ITERATIONS (accepting_in_round 2) body_step
          ''add more detail'' []))) = ''Body, draft 3''
   \<and> rounds (snd (snd (snd (revise_step_with_llms MAX_ITERATIONS (accepting_in_round 2) body_step
          ''add more detail'' [])))) = 2"
proof -
  let ?A = "accepting_in_round 2"
  let ?c0 = "initial_context body_step ''add more detail''"
  define s where "s = the (rejected_rounds ?A body_step 1 ?c0 [])"
  define a1 where "a1 = get_claude_response ?A (fst s) (claude_prompt (fst s))
                          (snd s @ [LogIteration (current_iteration (fst s)) (name body_step)])"
  define a2 where "a2 = get_gemini_response ?A (fst (snd a1)) ''NO needs work'' (snd (snd a1))"
  define a3 where "a3 = get_claude_response ?A (fst (snd a2))
                          (review_prompt (fst (snd a2)) ''Body, draft 3'') (snd (snd a2))"
  have k: "1 \<le> (2::nat)" "int 2 \<le> MAX_ITERATIONS"
    by (simp_all add: MAX_ITERATIONS_def)
  have first_round: "rejected_rounds ?A body_step 1 ?c0 [] \<noteq> None"
    by (simp add: eval_defs stub_defs)
  then have reach: "rejected_rounds ?A body_step (2 - 1) ?c0 [] = Some (fst s, snd s)"
    by (auto simp: s_def)
  have len: "length (claude_messages (fst s)) = 4" "length (gemini_history (fst s)) = 2"
    by (simp_all add: s_def eval_defs stub_defs)
  have A1: "get_claude_response ?A (fst s) (claude_prompt (fst s))
              (snd s @ [LogIteration (current_iteration (fst s)) (name body_step)])
              = (Some ''NO needs work'', fst (snd a1), snd (snd a1))"
    by (simp add: a1_def get_claude_response_def Let_def accepting_in_round_def len)
  have A2: "get_gemini_response ?A (fst (snd a1)) ''NO needs work'' (snd (snd a1))
              = (Some ''Body, draft 3'', fst (snd a2), snd (snd a2))"
    by (simp add: a2_def a1_def get_claude_response_def get_gemini_response_def
                  formatted_history_def Let_def accepting_in_round_def len)
  have A3: "get_claude_response ?A (fst (snd a2)) (review_prompt (fst (snd a2)) ''Body, draft 3'')
              (snd (snd a2))
              = (Some ''Yes - ready for hand-off'', fst (snd a3), snd (snd a3))"
    by (simp add: a3_def a2_def a1_def get_claude_response_def get_gemini_response_def
                  formatted_history_def Let_def accepting_in_round_def len)
  have yes: "str_contains (upper ?A ''Yes - ready for hand-off'') ''YES''"
    by (simp add: upper_def upper_char_def accepting_in_round_def)
  from accepted_round_writes_its_revision [OF k reach A1 _ A2 _ A3 yes]
  show ?thesis by simp
qed

section \<open>Steps without a pending request\<close>

text \<open>
  Claim C3. For every plan run through \<^verbatim>\<open>further_revise_plan\<close>, a step whose name is not a
  key of \<^verbatim>\<open>revision_requests\<close> is the same after the run as before it, so its \<^verbatim>\<open>content\<close> is
  identical; no context is stored under such a name; and the run makes the same protocol
  invocations and backend calls, with the same results and the same contexts, as the run on
  the plan from which those steps have been removed, so none is made on their behalf. In
  particular a plan none of whose steps has a request is returned as it is, with no context
  and no event added to the trace.
\<close>

theorem unrequested_steps_are_passed_through:
  assumes run: "further_revise_plan mx B plan tr = (ok, plan', ctxs, tr')"
  shows "length (Detailed_Outline plan') = length (Detailed_Outline plan)
       \<and> (\<forall>i < length (Detailed_Outline plan).
             revision_requests plan (name (Detailed_Outline plan ! i)) = None
             \<longrightarrow> Detailed_Outline plan' ! i = Detailed_Outline plan ! i)
       \<and> (\<forall>n. revision_requests plan n = None \<longrightarrow> ctxs n = None)
       \<and> (\<exists>kept. further_revise_plan mx B
                    (plan\<lparr>Detailed_Outline :=
                       filter (\<lambda>s. revision_requests plan (name s) \<noteq> None)
                         (Detailed_Outline plan)\<rparr>) tr
                  = (ok, plan\<lparr>Detailed_Outline := kept\<rparr>, ctxs, tr'))
       \<and> ((\<forall>s \<in> set (Detailed_Outline plan). revision_requests plan (name s) = None)
            \<longrightarrow> ok \<and> plan' = plan \<and> ctxs = Map.empty \<and> tr' = tr)"
proof -
  let ?rr = "revision_requests plan"
  let ?steps = "Detailed_Outline plan"
  obtain steps' where
    r: "revise_steps mx B ?rr ?steps Map.empty tr = (ok, steps', ctxs, tr')"
    and p: "plan' = plan\<lparr>Detailed_Outline := steps'\<rparr>"
    using run by (auto simp: further_revise_plan_def split: prod.splits)
  note f = revise_steps_frame [OF r]
  have 1: "length (Detailed_Outline plan') = length ?steps"
    using f p by simp
  have 2: "\<forall>i < length ?steps. ?rr (name (?steps ! i)) = None
             \<longrightarrow> Detailed_Outline plan' ! i = ?steps ! i"
    using f p by simp
  have 3: "\<forall>n. ?rr n = None \<longrightarrow> ctxs n = None"
    using f by simp
  from revise_steps_filter [OF r] obtain kept where
    k: "revise_steps mx B ?rr (filter (\<lambda>s. ?rr (name s) \<noteq> None) ?steps) Map.empty tr
          = (ok, kept, ctxs, tr')"
    by blast
  have 4: "\<exists>kept. further_revise_plan mx B
                    (plan\<lparr>Detailed_Outline := filter (\<lambda>s. ?rr (name s) \<noteq> None) ?steps\<rparr>) tr
                  = (ok, plan\<lparr>Detailed_Outline := kept\<rparr>, ctxs, tr')"
    using k by (intro exI [of _ kept]) (simp add: further_revise_plan_def)
  have 5: "ok \<and> plan' = plan \<and> ctxs = Map.empty \<and> tr' = tr"
    if none: "\<forall>s \<in> set ?steps. ?rr (name s) = None"
  proof -
    from none have "filter (\<lambda>s. ?rr (name s) \<noteq> None) ?steps = []"
      by (simp add: filter_empty_conv)
    with k have e: "ok" "ctxs = Map.empty" "tr' = tr"
      by simp_all
    have "steps' = ?steps"
    proof (rule nth_equalityI)
      show "length steps' = length ?steps" using f by simp
    next
      fix i assume "i < length steps'"
      with f none show "steps' ! i = ?steps ! i" by simp
    qed
    with p e show ?thesis by simp
  qed
  from 1 2 3 4 5 show ?thesis by blast
qed

theorem unrequested_steps_are_passed_through_witness:
  "Detailed_Outline (fst (snd (further_revise_plan MAX_ITERATIONS rejecting_backends
      sample_plan []))) ! 0 = intro_step
   \<and> fst (snd (snd (further_revise_plan MAX_ITERATIONS rejecting_backends sample_plan [])))
        ''Intro'' = None
   \<and> length (Detailed_Outline (fst (snd (further_revise_plan MAX_ITERATIONS rejecting_backends
      sample_plan [])))) = 2"
proof -
  define res where "res = further_revise_plan MAX_ITERATIONS rejecting_backends sample_plan []"
  have run: "further_revise_plan MAX_ITERATIONS rejecting_backends sample_plan []
               = (fst res, fst (snd res), fst (snd (snd res)), snd (snd (snd res)))"
    by (simp add: res_def)
  have i: "(0::nat) < length (Detailed_Outline sample_plan)"
    and n: "revision_requests sample_plan (name (Detailed_Outline sample_plan ! 0)) = None"
    and m: "revision_requests sample_plan ''Intro'' = None"
    by (simp_all add: sample_plan_def intro_step_def)
  from unrequested_steps_are_passed_through [OF run] i n m show ?thesis
    by (auto simp: res_def sample_plan_def)
qed

section \<open>Fail-fast batches\<close>

text \<open>
  Claim C4. Let the driver have worked through the steps \<open>pre\<close> before a step without an
  abort, leaving them as \<open>pre'\<close>, and let the protocol invocation for that step abort. Then
  \<^verbatim>\<open>further_revise_plan\<close> returns \<^verbatim>\<open>None\<close> at that point: the trace ends with the aborted
  invocation, the later steps \<open>post\<close> are untouched and no context is stored for the
  aborted step, while the earlier steps stay as \<open>pre'\<close>, revised contents included.
\<close>

theorem driver_halts_on_first_abort:
  assumes outline: "Detailed_Outline plan = pre @ step # post"
    and before: "further_revise_plan mx B (plan\<lparr>Detailed_Outline := pre\<rparr>) tr
                   = (True, plan\<lparr>Detailed_Outline := pre'\<rparr>, ctxs, tr1)"
    and req: "revision_requests plan (name step) = Some request"
    and abort: "revise_step_with_llms mx B step request tr1 = (ABORTED, step', c, tr2)"
  shows "further_revise_plan mx B plan tr
           = (False, plan\<lparr>Detailed_Outline := pre' @ step # post\<rparr>, ctxs, tr2)"
proof -
  let ?rr = "revision_requests plan"
  from before obtain pre'' where
    r: "revise_steps mx B ?rr pre Map.empty tr = (True, pre'', ctxs, tr1)"
    and e: "plan\<lparr>Detailed_Outline := pre''\<rparr> = plan\<lparr>Detailed_Outline := pre'\<rparr>"
    by (auto simp: further_revise_plan_def split: prod.splits)
  from e have "Detailed_Outline (plan\<lparr>Detailed_Outline := pre''\<rparr>)
                 = Detailed_Outline (plan\<lparr>Detailed_Outline := pre'\<rparr>)"
    by (rule arg_cong)
  then have pre: "pre'' = pre'" by simp
  have s: "revise_steps mx B ?rr (step # post) ctxs tr1 = (False, step # post, ctxs, tr2)"
    using req abort by (rule revise_steps_Cons_aborted [where requests = ?rr and step = step])
  have "revise_steps mx B ?rr (pre @ step # post) Map.empty tr
          = (False, pre' @ step # post, ctxs, tr2)"
    by (simp add: revise_steps_append r s pre del: revise_steps.simps)
  then show ?thesis
    by (simp add: further_revise_plan_def outline)
qed

theorem driver_halts_on_first_abort_witness:
  "fst (further_revise_plan MAX_ITERATIONS failing_after_three_calls two_request_plan []) = False
   \<and> map content (Detailed_Outline (fst (snd (further_revise_plan MAX_ITERATIONS
          failing_after_three_calls two_request_plan []))))
       = [''Intro, second draft'', ''Body, first draft'']
   \<and> fst (snd (snd (further_revise_plan MAX_ITERATIONS failing_after_three_calls
          two_request_plan []))) ''Body'' = None"
proof -
  let ?B = "failing_after_three_calls"
  let ?P = "two_request_plan"
  define res where
    "res = further_revise_plan MAX_ITERATIONS ?B (?P\<lparr>Detailed_Outline := [intro_step]\<rparr>) []"
  define ab where
    "ab = revise_step_with_llms MAX_ITERATIONS ?B body_step ''add more detail''
            (snd (snd (snd res)))"
  have outline: "Detailed_Outline ?P = [intro_step] @ body_step # []"
    by (simp add: two_request_plan_def)
  have req: "revision_requests ?P (name body_step) = Some ''add more detail''"
    by (simp add: two_request_plan_def body_step_def)
  have ok: "fst res = True"
    and plan: "fst (snd res)
                 = ?P\<lparr>Detailed_Outline := [intro_step\<lparr>content := ''Intro, second draft''\<rparr>]\<rparr>"
    and n: "calls (snd (snd (snd res))) = 3"
    and bd: "fst (snd (snd res)) ''Body'' = None"
    by (simp_all add: res_def further_revise_plan_def eval_defs stub_defs revise_loop.simps)
  have before: "further_revise_plan MAX_ITERATIONS ?B (?P\<lparr>Detailed_Outline := [intro_step]\<rparr>) []
                  = (True, ?P\<lparr>Detailed_Outline := [intro_step\<lparr>content := ''Intro, second draft''\<rparr>]\<rparr>,
                     fst (snd (snd res)), snd (snd (snd res)))"
    using ok plan by (simp add: res_def prod_eq_iff)
  have "fst ab = ABORTED"
    by (simp add: ab_def revise_step_with_llms_def MAX_ITERATIONS_def revise_loop.simps
          revise_round_def get_claude_response_def Let_def failing_after_three_calls_def
          initial_context_def n)
  then have abort: "revise_step_with_llms MAX_ITERATIONS ?B body_step ''add more detail''
                      (snd (snd (snd res)))
                    = (ABORTED, fst (snd ab), fst (snd (snd ab)), snd (snd (snd ab)))"
    by (simp add: ab_def prod_eq_iff)
  from driver_halts_on_first_abort [OF outline before req abort] bd
  show ?thesis
    by (simp add: intro_step_def body_step_def)
qed

section \<open>The scenario with a cap of one round\<close>

text \<open>
  Claim C7, as amended. For the plan with the steps \<^verbatim>\<open>Intro\<close> and \<^verbatim>\<open>Body\<close>, the single
  request \<^verbatim>\<open>{"Body": "add more detail"}\<close>, \<^verbatim>\<open>MAX_ITERATIONS = 1\<close>, a Claude backend that
  always replies \<^verbatim>\<open>NO needs work\<close> (a text that \<^verbatim>\<open>str.upper\<close> turns into
  \<^verbatim>\<open>NO NEEDS WORK\<close>) and a reviser that replies some text \<open>r\<close>: the batch
  returns successfully, the plan is returned as it was (the content of \<^verbatim>\<open>Intro\<close> and the
  content of \<^verbatim>\<open>Body\<close> are both unchanged, the revision \<open>r\<close> of round 1 is dropped), the
  invocation for \<^verbatim>\<open>Body\<close> ends in the exhausted state, and exactly one round with its three
  calls was run.
\<close>

theorem exhausted_scenario_leaves_plan_unchanged:
  assumes claude: "messages_create B = (\<lambda>tr msgs. Replies ''NO needs work'')"
    and gemini: "send_message B = (\<lambda>tr h p. Replies r)"
    and r: "r \<noteq> []"
    and up: "upper B ''NO needs work'' = ''NO NEEDS WORK''"
  shows "fst (further_revise_plan 1 B (scenario_plan a b) tr) = True
       \<and> fst (snd (further_revise_plan 1 B (scenario_plan a b) tr)) = scenario_plan a b
       \<and> fst (revise_step_with_llms 1 B \<lparr>name = ''Body'', content = b\<rparr> ''add more detail'' tr)
           = EXHAUSTED
       \<and> results (snd (snd (snd (further_revise_plan 1 B (scenario_plan a b) tr))))
           = results tr @ [Replies ''NO needs work'', Replies r, Replies ''NO needs work'']
       \<and> rounds (snd (snd (snd (further_revise_plan 1 B (scenario_plan a b) tr))))
           = rounds tr + 1"
  using r
  by (simp add: further_revise_plan_def revise_step_with_llms_def revise_round_def
        get_claude_response_def get_gemini_response_def formatted_history_def Let_def
        scenario_plan_def initial_context_def revise_loop.simps claude gemini up)

theorem exhausted_scenario_leaves_plan_unchanged_witness:
  "fst (further_revise_plan 1 rejecting_backends sample_plan []) = True
   \<and> fst (snd (further_revise_plan 1 rejecting_backends sample_plan [])) = sample_plan
   \<and> results (snd (snd (snd (further_revise_plan 1 rejecting_backends sample_plan []))))
       = [Replies ''NO needs work'', Replies ''Body, second draft'', Replies ''NO needs work'']"
proof -
  have c: "messages_create rejecting_backends = (\<lambda>tr msgs. Replies ''NO needs work'')"
    and g: "send_message rejecting_backends = (\<lambda>tr h p. Replies ''Body, second draft'')"
    and r: "''Body, second draft'' \<noteq> []"
    and u: "upper rejecting_backends ''NO needs work'' = ''NO NEEDS WORK''"
    by (simp_all add: rejecting_backends_def upper_def upper_char_def)
  have p: "sample_plan = scenario_plan ''Intro, first draft'' ''Body, first draft''"
    by (simp add: sample_plan_def scenario_plan_def intro_step_def body_step_def)
  from exhausted_scenario_leaves_plan_unchanged
         [OF c g r u, of "''Intro, first draft''" "''Body, first draft''" "[]"]
  show ?thesis by (simp add: p)
qed

text \<open>
  The claim as first stated expected the content of \<^verbatim>\<open>Body\<close> to be the reviser output of
  round 1. The step is written only in the accepting branch; here it keeps its first draft.
\<close>

theorem exhausted_body_keeps_first_draft_counterexample:
  "results (snd (snd (snd (further_revise_plan 1 rejecting_backends sample_plan []))))
       = [Replies ''NO needs work'', Replies ''Body, second draft'', Replies ''NO needs work'']
   \<and> content (Detailed_Outline (fst (snd (further_revise_plan 1 rejecting_backends
         sample_plan []))) ! 1) = ''Body, first draft''
   \<and> content (Detailed_Outline (fst (snd (further_revise_plan 1 rejecting_backends
         sample_plan []))) ! 1) \<noteq> ''Body, second draft''"
  by (simp add: further_revise_plan_def eval_defs stub_defs revise_loop.simps)

section \<open>One attempt for each Gemini call\<close>


section \<open>Histories\<close>

text \<open>
  Claim C9. Both histories are append-only. A call of either wrapper leaves each history with
  its old entries as a prefix (and does not touch the other backend's history). Within one
  invocation the histories at the start of a round are prefixes of those at the start of
  every later round and of those the invocation ends with; at the start of round \<open>n + 1\<close>
  they hold \<open>4 * n\<close> and \<open>2 * n\<close> entries. Every invocation builds its own context with both
  histories empty, so nothing of another step's context is in them: the first request an
  invocation sends to Claude consists of the one instruction prompt of its own step,
  whatever was exchanged for earlier steps. (Contexts are values here; that two contexts
  never hold the same list object shows as this independence.)
\<close>

theorem histories_are_append_only:
  "prefix (claude_messages ctx) (claude_messages (fst (snd (get_claude_response B ctx p t0))))
   \<and> gemini_history (fst (snd (get_claude_response B ctx p t0))) = gemini_history ctx
   \<and> prefix (gemini_history ctx) (gemini_history (fst (snd (get_gemini_response B ctx p t0))))
   \<and> claude_messages (fst (snd (get_gemini_response B ctx p t0))) = claude_messages ctx
   \<and> claude_messages (initial_context step request) = []
   \<and> gemini_history (initial_context step request) = []
   \<and> (rejected_rounds B step n (initial_context step request) tr = Some (c1, t1)
        \<and> rejected_rounds B step (n + m) (initial_context step request) tr = Some (c2, t2)
       \<longrightarrow> prefix (claude_messages c1) (claude_messages c2)
         \<and> prefix (gemini_history c1) (gemini_history c2)
         \<and> length (claude_messages c1) = 4 * n \<and> length (gemini_history c1) = 2 * n)
   \<and> (rejected_rounds B step n (initial_context step request) tr = Some (c1, t1)
        \<and> int n \<le> mx
        \<and> revise_step_with_llms mx B step request tr = (ex, step', c', tr')
       \<longrightarrow> prefix (claude_messages c1) (claude_messages c')
         \<and> prefix (gemini_history c1) (gemini_history c'))
   \<and> (1 \<le> mx \<and> revise_step_with_llms mx B step request tr = (ex, step', c', tr')
       \<longrightarrow> prefix (tr @ [LogIteration 1 (name step),
                         MessagesCreate [(''user'', claude_prompt (initial_context step request))]
                           (messages_create B (tr @ [LogIteration 1 (name step)])
                              [(''user'', claude_prompt (initial_context step request))])]) tr')"
proof -
  let ?c0 = "initial_context step request"
  have c0: "current_iteration ?c0 = 1" "claude_messages ?c0 = []" "gemini_history ?c0 = []"
    by (simp_all add: initial_context_def)
  have 1: "prefix (claude_messages ctx) (claude_messages (fst (snd (get_claude_response B ctx p t0))))
     \<and> gemini_history (fst (snd (get_claude_response B ctx p t0))) = gemini_history ctx"
    using get_claude_response_effect(4,5) [of B ctx p t0] by (metis prod.collapse)
  have 2: "prefix (gemini_history ctx) (gemini_history (fst (snd (get_gemini_response B ctx p t0))))
     \<and> claude_messages (fst (snd (get_gemini_response B ctx p t0))) = claude_messages ctx"
    using get_gemini_response_effect(4,5) [of B ctx p t0] by (metis prod.collapse)
  have 3: "prefix (claude_messages c1) (claude_messages c2)
         \<and> prefix (gemini_history c1) (gemini_history c2)
         \<and> length (claude_messages c1) = 4 * n \<and> length (gemini_history c1) = 2 * n"
    if a: "rejected_rounds B step n ?c0 tr = Some (c1, t1)"
      and b: "rejected_rounds B step (n + m) ?c0 tr = Some (c2, t2)"
  proof -
    from rejected_rounds_add [OF b] a
    have "rejected_rounds B step m c1 t1 = Some (c2, t2)" by simp
    from rejected_rounds_histories [OF this] rejected_rounds_histories [OF a]
    show ?thesis by (simp add: c0)
  qed
  have 4: "prefix (claude_messages c1) (claude_messages c')
         \<and> prefix (gemini_history c1) (gemini_history c')"
    if a: "rejected_rounds B step n ?c0 tr = Some (c1, t1)" and n: "int n \<le> mx"
      and run: "revise_step_with_llms mx B step request tr = (ex, step', c', tr')"
  proof -
    have "revise_loop mx B step ?c0 tr = revise_loop mx B step c1 t1"
      using n by (intro revise_loop_after_rejected [OF a]) (simp add: c0)
    with run have "revise_loop mx B step c1 t1 = (ex, step', c', tr')"
      by (simp add: revise_step_with_llms_def)
    from revise_loop_histories [OF this] show ?thesis by simp
  qed
  have 5: "prefix (tr @ [LogIteration 1 (name step),
                         MessagesCreate [(''user'', claude_prompt ?c0)]
                           (messages_create B (tr @ [LogIteration 1 (name step)])
                              [(''user'', claude_prompt ?c0)])]) tr'"
    if mx: "1 \<le> mx" and run: "revise_step_with_llms mx B step request tr = (ex, step', c', tr')"
    using revise_loop_first_events [of mx B step ?c0 tr ex step' c' tr'] mx run
    by (simp add: revise_step_with_llms_def c0)
  from 1 2 c0(2,3) 3 4 5 show ?thesis by blast
qed

theorem histories_are_append_only_witness:
  "length (claude_messages (fst (the (rejected_rounds rejecting_backends body_step 1
      (initial_context body_step ''add more detail'') [])))) = 4
   \<and> length (gemini_history (fst (the (rejected_rounds rejecting_backends body_step 1
      (initial_context body_step ''add more detail'') [])))) = 2
   \<and> prefix (claude_messages (fst (the (rejected_rounds rejecting_backends body_step 1
                (initial_context body_step ''add more detail'') []))))
             (claude_messages (fst (the (rejected_rounds rejecting_backends body_step (1 + 1)
                (initial_context body_step ''add more detail'') []))))
   \<and> prefix (gemini_history (fst (the (rejected_rounds rejecting_backends body_step 1
                (initial_context body_step ''add more detail'') []))))
             (gemini_history (fst (snd (snd (revise_step_with_llms MAX_ITERATIONS
                rejecting_backends body_step ''add more detail'' [])))))
   \<and> prefix [LogIteration 1 ''Body'',
              MessagesCreate
                [(''user'', claude_prompt (initial_context body_step ''add more detail''))]
                (Replies ''NO needs work'')]
             (snd (snd (snd (revise_step_with_llms MAX_ITERATIONS rejecting_backends body_step
                ''add more detail'' []))))"
proof -
  let ?R = "rejecting_backends"
  let ?c0 = "initial_context body_step ''add more detail''"
  define s1 where "s1 = the (rejected_rounds ?R body_step 1 ?c0 [])"
  define s2 where "s2 = the (rejected_rounds ?R body_step (1 + 1) ?c0 [])"
  define res where
    "res = revise_step_with_llms MAX_ITERATIONS ?R body_step ''add more detail'' []"
  have "rejected_rounds ?R body_step 1 ?c0 [] \<noteq> None"
    by (simp add: eval_defs stub_defs)
  then have r1: "rejected_rounds ?R body_step 1 ?c0 [] = Some (fst s1, snd s1)"
    by (auto simp: s1_def)
  have "rejected_rounds ?R body_step (1 + 1) ?c0 [] \<noteq> None"
    by (simp add: eval_defs stub_defs)
  then have r2: "rejected_rounds ?R body_step (1 + 1) ?c0 [] = Some (fst s2, snd s2)"
    by (auto simp: s2_def)
  have n: "int 1 \<le> MAX_ITERATIONS" "1 \<le> MAX_ITERATIONS"
    by (simp_all add: MAX_ITERATIONS_def)
  have run: "revise_step_with_llms MAX_ITERATIONS ?R body_step ''add more detail'' []
               = (fst res, fst (snd res), fst (snd (snd res)), snd (snd (snd res)))"
    by (simp add: res_def)
  have first: "messages_create ?R ([] @ [LogIteration 1 (name body_step)])
                 [(''user'', claude_prompt ?c0)] = Replies ''NO needs work''"
    by (simp add: rejecting_backends_def)
  from histories_are_append_only
         [of sample_context ?R "''review''" "[]" body_step "''add more detail''" 1 "[]"
             "fst s1" "snd s1" 1 "fst s2" "snd s2" MAX_ITERATIONS
             "fst res" "fst (snd res)" "fst (snd (snd res))" "snd (snd (snd res))"]
       r1 r2 n run first
  show ?thesis
    by (simp add: s1_def s2_def res_def body_step_def)
qed

end
